theory Spec2Isabelle
  imports Main "HOL-Library.Word"
begin

section \<open>kube-mgmt: replication of Kubernetes resources into OPA (pkg/data/generic.go)\<close>

text \<open>
  The worker of \<^verbatim>\<open>GenericSync\<close> talks to three collaborators that are not
  part of the file: the dynamic Kubernetes client (\<^verbatim>\<open>List\<close>, \<^verbatim>\<open>Watch\<close>),
  the OPA data client (\<^verbatim>\<open>PutData\<close>, \<^verbatim>\<open>PatchData\<close>) and the Go runtime
  (timers, the \<^verbatim>\<open>quit\<close> channel). The embedding threads one piece of state through
  the code, the list of calls made so far, and takes the collaborators' answers from an
  environment whose answers may depend on that whole history. It covers \<^verbatim>\<open>loop\<close>,
  \<^verbatim>\<open>sync\<close>, \<^verbatim>\<open>syncAdd\<close>, \<^verbatim>\<open>syncRemove\<close> and \<^verbatim>\<open>syncReset\<close>;
  \<^verbatim>\<open>New\<close> and \<^verbatim>\<open>Run\<close>, which build the client and start the worker, are
  outside it.
\<close>

subsection \<open>Durations and the backoff constants\<close>

text \<open>\<^verbatim>\<open>time.Duration\<close> is an \<^verbatim>\<open>int64\<close> count of nanoseconds.\<close>

type_synonym Duration = "64 word"

definition time_Second :: Duration where
  "time_Second = 1000000000"

definition backoffMax :: Duration where
  "backoffMax = time_Second * 30"

definition backoffMin :: Duration where
  "backoffMin = time_Second"

subsection \<open>Error values\<close>

text \<open>
  A Go \<^verbatim>\<open>error\<close> is an interface value: \<^verbatim>\<open>nil\<close>, or a value of some dynamic
  type with an \<^verbatim>\<open>Error() string\<close> method. The dynamic types that occur are
  \<^verbatim>\<open>errChannelClosed\<close> (line 122), the \<^verbatim>\<open>*withStack\<close> built by
  \<^verbatim>\<open>errors.Wrap\<close>, the value built by \<^verbatim>\<open>fmt.Errorf\<close>, and whatever
  the collaborators return (\<open>foreign\<close>, told apart by a text).
\<close>

datatype runtime_Object =
    Unstructured string string string
  | NotObject string

datatype go_error =
    nil
  | errChannelClosed
  | withStack go_error string
  | fmt_Errorf string runtime_Object
  | foreign string

text \<open>\<^verbatim>\<open>errors.Wrap(err, msg)\<close> of github.com/pkg/errors: \<^verbatim>\<open>nil\<close> stays \<^verbatim>\<open>nil\<close>.\<close>

definition errors_Wrap :: "go_error \<Rightarrow> string \<Rightarrow> go_error" where
  "errors_Wrap e msg = (if e = nil then nil else withStack e msg)"

text \<open>
  Lines 118 and 120 declare \<^verbatim>\<open>type errKubernetes error\<close> and
  \<^verbatim>\<open>type errOPA error\<close>: two named interface types whose method set is that of
  \<^verbatim>\<open>error\<close>. The conversions \<^verbatim>\<open>errKubernetes(x)\<close> and \<^verbatim>\<open>errOPA(x)\<close>
  change the static type of the interface value only; its dynamic type and value stay.
\<close>

definition errKubernetes :: "go_error \<Rightarrow> go_error" where
  "errKubernetes e = e"

definition errOPA :: "go_error \<Rightarrow> go_error" where
  "errOPA e = e"

text \<open>
  The tests of the type switch of \<^verbatim>\<open>loop\<close> (lines 84 to 114), which are the
  type assertions \<^verbatim>\<open>err.(T)\<close> of the language: for a concrete type \<^verbatim>\<open>T\<close> the
  assertion holds when the dynamic type of the value is \<^verbatim>\<open>T\<close>; for an interface
  type \<^verbatim>\<open>T\<close> it holds when the dynamic type of the value implements \<^verbatim>\<open>T\<close>.
  \<^verbatim>\<open>errChannelClosed\<close> is a struct type. \<^verbatim>\<open>errOPA\<close> and
  \<^verbatim>\<open>errKubernetes\<close> are interface types asking for the one method
  \<^verbatim>\<open>Error() string\<close>, which every non-nil \<^verbatim>\<open>error\<close> has. The cases are
  tried in the order of the source: \<^verbatim>\<open>errChannelClosed\<close>, \<^verbatim>\<open>errOPA\<close>,
  \<^verbatim>\<open>errKubernetes\<close>; the switch has no default.
\<close>

definition is_errChannelClosed :: "go_error \<Rightarrow> bool" where
  "is_errChannelClosed e = (e = errChannelClosed)"

definition is_errOPA :: "go_error \<Rightarrow> bool" where
  "is_errOPA e = (e \<noteq> nil)"

definition is_errKubernetes :: "go_error \<Rightarrow> bool" where
  "is_errKubernetes e = (e \<noteq> nil)"

datatype switch_case = case_errChannelClosed | case_errOPA | case_errKubernetes | no_case

definition type_switch :: "go_error \<Rightarrow> switch_case" where
  "type_switch e =
     (if is_errChannelClosed e then case_errChannelClosed
      else if is_errOPA e then case_errOPA
      else if is_errKubernetes e then case_errKubernetes
      else no_case)"

subsection \<open>Resource types, objects and events\<close>

text \<open>
  \<^verbatim>\<open>types.ResourceType\<close> (another package): the fields the file reads.
\<close>

record ResourceType =
  Group :: string
  Version :: string
  Resource :: string
  Namespaced :: bool

text \<open>
  A \<^verbatim>\<open>runtime.Object\<close> is either \<open>Unstructured name namespace content\<close>, an
  object with identity metadata, or \<open>NotObject content\<close>, a value for which
  \<^verbatim>\<open>meta.Accessor\<close> fails (\<^verbatim>\<open>nil\<close>, a \<^verbatim>\<open>*metav1.Status\<close>).
  \<^verbatim>\<open>meta.Accessor\<close> is a function of k8s.io/apimachinery; it answers with its
  fixed error \<^verbatim>\<open>errNotObject\<close>.
\<close>

record ObjectMeta =
  GetName :: string
  GetNamespace :: string

definition errNotObject :: go_error where
  "errNotObject = foreign ''object does not implement the Object interfaces''"

fun meta_Accessor :: "runtime_Object \<Rightarrow> go_error + ObjectMeta" where
  "meta_Accessor (Unstructured name namespace content) =
     Inr \<lparr>GetName = name, GetNamespace = namespace\<rparr>"
| "meta_Accessor (NotObject content) = Inl errNotObject"

record UnstructuredList =
  Items :: "runtime_Object list"
  GetResourceVersion :: string

text \<open>
  \<^verbatim>\<open>watch.EventType\<close> is a string type; the constants are those of
  k8s.io/apimachinery/pkg/watch. A receive from a closed channel gives the zero
  \<^verbatim>\<open>watch.Event\<close>, whose type is the empty string.
\<close>

definition watch_Added :: string where "watch_Added = ''ADDED''"
definition watch_Modified :: string where "watch_Modified = ''MODIFIED''"
definition watch_Deleted :: string where "watch_Deleted = ''DELETED''"
definition watch_Error :: string where "watch_Error = ''ERROR''"

record watch_Event =
  Type :: string
  Object :: runtime_Object

definition closed_channel_Event :: watch_Event where
  "closed_channel_Event = \<lparr>Type = [], Object = NotObject []\<rparr>"

subsection \<open>Calls and the environment\<close>

text \<open>
  The value handed to \<^verbatim>\<open>PutData\<close>: an object, or the empty map of
  \<^verbatim>\<open>syncReset\<close>. The sink is the client \<^verbatim>\<open>opa.Prefix(ns.Resource)\<close> that
  \<^verbatim>\<open>New\<close> stores (line 45); paths are relative to that prefix.
\<close>

datatype put_value = object runtime_Object | empty_map

datatype call =
    resource_List
  | resource_Watch string
  | w_Stop
  | opa_PutData string put_value
  | opa_PatchData string string
  | time_NewTimer Duration
  | logrus_Infof string
  | logrus_Errorf string Duration

text \<open>
  The calls the worker makes, in the order it makes them. The three \<^verbatim>\<open>Infof\<close>
  lines of \<^verbatim>\<open>sync\<close>, which report wall-clock durations, and the construction of
  the resource handle (line 69), which calls nothing, are left out; the log lines of
  \<^verbatim>\<open>loop\<close> are kept with the delay they print.
\<close>

type_synonym trace = "call list"

text \<open>
  What one \<^verbatim>\<open>select\<close> of the event loop (lines 176 to 201) observes, and what the
  \<^verbatim>\<open>select\<close> of a backoff wait (lines 94 to 99 and 108 to 113) observes.
\<close>

datatype select_case = recv watch_Event | quit

datatype timer_case = t_C | timer_quit

text \<open>
  The environment. Each answer is a function of the calls made before it. A watcher is
  given by the outcomes of the successive selects of the event loop that reads it; when
  they run out without ending the loop, the worker waits for ever.
\<close>

record env =
  List_result :: "trace \<Rightarrow> UnstructuredList \<times> go_error"
  Watch_result :: "trace \<Rightarrow> string \<Rightarrow> select_case list \<times> go_error"
  PutData_result :: "trace \<Rightarrow> string \<Rightarrow> put_value \<Rightarrow> go_error"
  PatchData_result :: "trace \<Rightarrow> string \<Rightarrow> string \<Rightarrow> go_error"
  backoff_select :: "trace \<Rightarrow> timer_case"

subsection \<open>The sink operations (lines 205 to 233)\<close>

definition PutData :: "env \<Rightarrow> string \<Rightarrow> put_value \<Rightarrow> trace \<Rightarrow> go_error \<times> trace" where
  "PutData env path v tr = (PutData_result env tr path v, tr @ [opa_PutData path v])"

definition PatchData :: "env \<Rightarrow> string \<Rightarrow> string \<Rightarrow> trace \<Rightarrow> go_error \<times> trace" where
  "PatchData env path op tr = (PatchData_result env tr path op, tr @ [opa_PatchData path op])"

definition syncAdd :: "ResourceType \<Rightarrow> env \<Rightarrow> runtime_Object \<Rightarrow> trace \<Rightarrow> go_error \<times> trace" where
  "syncAdd ns env obj tr =
     (case meta_Accessor obj of
        Inl err \<Rightarrow> (err, tr)
      | Inr m \<Rightarrow>
          let name = GetName m;
              path = (if Namespaced ns then GetNamespace m @ ''/'' @ name else GetName m)
          in PutData env path (object obj) tr)"

definition syncRemove :: "ResourceType \<Rightarrow> env \<Rightarrow> runtime_Object \<Rightarrow> trace \<Rightarrow> go_error \<times> trace" where
  "syncRemove ns env obj tr =
     (case meta_Accessor obj of
        Inl err \<Rightarrow> (err, tr)
      | Inr m \<Rightarrow>
          let name = GetName m;
              path = (if Namespaced ns then GetNamespace m @ ''/'' @ name else GetName m)
          in PatchData env path ''remove'' tr)"

definition syncReset :: "env \<Rightarrow> trace \<Rightarrow> go_error \<times> trace" where
  "syncReset env tr = PutData env ''/'' empty_map tr"

subsection \<open>One cycle: \<^verbatim>\<open>sync\<close> (lines 132 to 203)\<close>

text \<open>The loop of lines 155 to 159 over the listed items.\<close>

fun list_add :: "ResourceType \<Rightarrow> env \<Rightarrow> runtime_Object list \<Rightarrow> trace \<Rightarrow> go_error \<times> trace" where
  "list_add ns env [] tr = (nil, tr)"
| "list_add ns env (item # items) tr =
     (case syncAdd ns env item tr of
        (err, tr1) \<Rightarrow>
          if err \<noteq> nil then (errOPA (errors_Wrap err ''list add''), tr1)
          else list_add ns env items tr1)"

text \<open>
  The event loop of lines 175 to 202. \<open>None\<close> is the loop that has not returned: the
  selects observed so far have not ended it.
\<close>

fun event_loop :: "ResourceType \<Rightarrow> env \<Rightarrow> select_case list \<Rightarrow> trace \<Rightarrow> go_error option \<times> trace" where
  "event_loop ns env [] tr = (None, tr)"
| "event_loop ns env (quit # ch) tr = (Some nil, tr)"
| "event_loop ns env (recv evt # ch) tr =
     (if Type evt = watch_Added then
        (case syncAdd ns env (Object evt) tr of
           (err, tr1) \<Rightarrow>
             if err \<noteq> nil then (Some (errOPA (errors_Wrap err ''add event'')), tr1)
             else event_loop ns env ch tr1)
      else if Type evt = watch_Modified then
        (case syncAdd ns env (Object evt) tr of
           (err, tr1) \<Rightarrow>
             if err \<noteq> nil then (Some (errOPA (errors_Wrap err ''modify event'')), tr1)
             else event_loop ns env ch tr1)
      else if Type evt = watch_Deleted then
        (case syncRemove ns env (Object evt) tr of
           (err, tr1) \<Rightarrow>
             if err \<noteq> nil then (Some (errOPA (errors_Wrap err ''delete event'')), tr1)
             else event_loop ns env ch tr1)
      else if Type evt = watch_Error then
        (Some (errKubernetes (fmt_Errorf ''error event: %v'' (Object evt))), tr)
      else (Some errChannelClosed, tr))"

text \<open>
  Lines 134 to 169: list, reset, load, open the watch. The result is the error the cycle
  returns with, or the watcher.
\<close>

definition sync_open :: "ResourceType \<Rightarrow> env \<Rightarrow> trace \<Rightarrow> (go_error + select_case list) \<times> trace" where
  "sync_open ns env tr =
     (case (List_result env tr, tr @ [resource_List]) of
        ((result, err), tr1) \<Rightarrow>
          if err \<noteq> nil then (Inl (errKubernetes (errors_Wrap err ''list'')), tr1)
          else
            let resourceVersion = GetResourceVersion result in
            (case syncReset env tr1 of
               (err, tr2) \<Rightarrow>
                 if err \<noteq> nil then (Inl (errOPA (errors_Wrap err ''reset'')), tr2)
                 else
                   (case list_add ns env (Items result) tr2 of
                      (err, tr3) \<Rightarrow>
                        if err \<noteq> nil then (Inl err, tr3)
                        else
                          (case (Watch_result env tr3 resourceVersion,
                                 tr3 @ [resource_Watch resourceVersion]) of
                             ((w, err), tr4) \<Rightarrow>
                               if err \<noteq> nil
                               then (Inl (errKubernetes (errors_Wrap err ''watch'')), tr4)
                               else (Inr w, tr4)))))"

text \<open>
  The whole of \<^verbatim>\<open>sync\<close>. The deferred \<^verbatim>\<open>w.Stop()\<close> of line 171 runs when
  the function returns from the event loop.
\<close>

definition sync :: "ResourceType \<Rightarrow> env \<Rightarrow> trace \<Rightarrow> go_error option \<times> trace" where
  "sync ns env tr =
     (case sync_open ns env tr of
        (Inl err, tr1) \<Rightarrow> (Some err, tr1)
      | (Inr ch, tr1) \<Rightarrow>
          (case event_loop ns env ch tr1 of
             (Some err, tr2) \<Rightarrow> (Some err, tr2 @ [w_Stop])
           | (None, tr2) \<Rightarrow> (None, tr2)))"

subsection \<open>The retry loop: \<^verbatim>\<open>loop\<close> (lines 63 to 116)\<close>

text \<open>
  The state of the worker between two steps: it has returned, it goes on to the next
  iteration with a delay, or it is inside a cycle that has not returned.
\<close>

datatype loop_state = Return trace | Continue Duration trace | Pending trace

fun trace_of :: "loop_state \<Rightarrow> trace" where
  "trace_of (Return tr) = tr"
| "trace_of (Continue delay tr) = tr"
| "trace_of (Pending tr) = tr"

text \<open>\<^verbatim>\<open>t := time.NewTimer(delay)\<close> and the select that follows.\<close>

definition backoff_wait :: "env \<Rightarrow> Duration \<Rightarrow> trace \<Rightarrow> loop_state" where
  "backoff_wait env delay tr =
     (let tr1 = tr @ [time_NewTimer delay] in
      case backoff_select env tr1 of
        t_C \<Rightarrow> Continue delay tr1
      | timer_quit \<Rightarrow> Return tr1)"

text \<open>The bodies of the cases of the type switch (lines 84 to 114).\<close>

definition loop_switch :: "switch_case \<Rightarrow> env \<Rightarrow> Duration \<Rightarrow> trace \<Rightarrow> loop_state" where
  "loop_switch c env delay tr =
     (case c of
        case_errChannelClosed \<Rightarrow>
          Continue backoffMin
            (tr @ [logrus_Infof ''Sync channel for %v closed. Restarting immediately.''])
      | case_errOPA \<Rightarrow>
          backoff_wait env backoffMin
            (tr @ [logrus_Errorf
               ''Sync for %v failed due to OPA error. Trying again in %v. Reason: %v'' delay])
      | case_errKubernetes \<Rightarrow>
          (let tr1 = tr @ [logrus_Errorf
                 ''Sync for %v failed due to Kubernetes error. Trying again in %v. Reason: %v''
                 delay];
               delay1 = delay * 2;
               delay2 = (if backoffMax <s delay1 then backoffMax else delay1)
           in backoff_wait env delay2 tr1)
      | no_case \<Rightarrow> Continue delay tr)"

text \<open>One iteration of the \<^verbatim>\<open>for\<close> of line 77.\<close>

definition loop_body :: "ResourceType \<Rightarrow> env \<Rightarrow> Duration \<Rightarrow> trace \<Rightarrow> loop_state" where
  "loop_body ns env delay tr =
     (case sync ns env tr of
        (None, tr1) \<Rightarrow> Pending tr1
      | (Some err, tr1) \<Rightarrow>
          if err = nil then Return tr1
          else loop_switch (type_switch err) env delay tr1)"

text \<open>
  The \<^verbatim>\<open>for\<close> loop, run for at most \<open>fuel\<close> iterations. \<open>Continue\<close> as a result
  says that the worker is still running after them.
\<close>

fun loop_for :: "nat \<Rightarrow> ResourceType \<Rightarrow> env \<Rightarrow> Duration \<Rightarrow> trace \<Rightarrow> loop_state" where
  "loop_for 0 ns env delay tr = Continue delay tr"
| "loop_for (Suc fuel) ns env delay tr =
     (case loop_body ns env delay tr of
        Continue delay1 tr1 \<Rightarrow> loop_for fuel ns env delay1 tr1
      | Return tr1 \<Rightarrow> Return tr1
      | Pending tr1 \<Rightarrow> Pending tr1)"

text \<open>
  \<^verbatim>\<open>loop\<close>: the delay starts at \<^verbatim>\<open>backoffMin\<close> (line 75); the deferred
  function of line 65 logs when the worker returns.
\<close>

definition loop :: "nat \<Rightarrow> ResourceType \<Rightarrow> env \<Rightarrow> trace \<Rightarrow> loop_state" where
  "loop fuel ns env tr =
     (case loop_for fuel ns env backoffMin tr of
        Return tr1 \<Rightarrow> Return (tr1 @ [logrus_Infof ''Sync for %v finished. Exiting.''])
      | Continue delay tr1 \<Rightarrow> Continue delay tr1
      | Pending tr1 \<Rightarrow> Pending tr1)"

subsection \<open>Vocabulary of the statements\<close>

text \<open>
  The path of an object as the specification gives it (section 4.4): the name, after the
  namespace and a slash when the resource type is namespaced.
\<close>

definition object_path :: "ResourceType \<Rightarrow> ObjectMeta \<Rightarrow> string" where
  "object_path ns m = (if Namespaced ns then GetNamespace m @ ''/'' @ GetName m else GetName m)"

text \<open>The sink operations the specification expects for an object and for an event.\<close>

definition reset_call :: call where
  "reset_call = opa_PutData ''/'' empty_map"

fun has_meta :: "runtime_Object \<Rightarrow> bool" where
  "has_meta (Unstructured name namespace content) = True"
| "has_meta (NotObject content) = False"

fun upsert_call :: "ResourceType \<Rightarrow> runtime_Object \<Rightarrow> call" where
  "upsert_call ns (Unstructured name namespace content) =
     opa_PutData (object_path ns \<lparr>GetName = name, GetNamespace = namespace\<rparr>)
       (object (Unstructured name namespace content))"

fun remove_call :: "ResourceType \<Rightarrow> runtime_Object \<Rightarrow> call" where
  "remove_call ns (Unstructured name namespace content) =
     opa_PatchData (object_path ns \<lparr>GetName = name, GetNamespace = namespace\<rparr>) ''remove''"

definition data_event :: "watch_Event \<Rightarrow> bool" where
  "data_event evt =
     (Type evt = watch_Added \<or> Type evt = watch_Modified \<or> Type evt = watch_Deleted)"

definition event_call :: "ResourceType \<Rightarrow> watch_Event \<Rightarrow> call" where
  "event_call ns evt =
     (if Type evt = watch_Deleted then remove_call ns (Object evt)
      else upsert_call ns (Object evt))"

text \<open>
  The events a watcher yields before the cycle ends: the Added, Modified and Deleted
  events up to the first select that observes something else.
\<close>

fun data_events :: "select_case list \<Rightarrow> watch_Event list" where
  "data_events [] = []"
| "data_events (quit # ch) = []"
| "data_events (recv evt # ch) = (if data_event evt then evt # data_events ch else [])"

fun is_sink_call :: "call \<Rightarrow> bool" where
  "is_sink_call (opa_PutData path v) = True"
| "is_sink_call (opa_PatchData path op) = True"
| "is_sink_call c = False"

fun is_source_call :: "call \<Rightarrow> bool" where
  "is_source_call resource_List = True"
| "is_source_call (resource_Watch rv) = True"
| "is_source_call c = False"

text \<open>The delays of the timers a trace creates, in order.\<close>

fun waits :: "trace \<Rightarrow> Duration list" where
  "waits [] = []"
| "waits (time_NewTimer delay # tr) = delay # waits tr"
| "waits (c # tr) = waits tr"

text \<open>
  Environments that answer the same way at every call: a listing, a watcher, a sink
  whose answer depends on the path, and the outcome of every backoff wait.
\<close>

definition scripted ::
  "UnstructuredList \<times> go_error \<Rightarrow> select_case list \<times> go_error \<Rightarrow> (string \<Rightarrow> go_error) \<Rightarrow>
   timer_case \<Rightarrow> env" where
  "scripted l w sink t =
     \<lparr>List_result = (\<lambda>tr. l),
      Watch_result = (\<lambda>tr rv. w),
      PutData_result = (\<lambda>tr path v. sink path),
      PatchData_result = (\<lambda>tr path op. sink path),
      backoff_select = (\<lambda>tr. t)\<rparr>"

definition no_items :: UnstructuredList where
  "no_items = \<lparr>Items = [], GetResourceVersion = ''v0''\<rparr>"

definition idle_env :: env where
  "idle_env = scripted (no_items, nil) ([], nil) (\<lambda>path. nil) t_C"

definition pods :: ResourceType where
  "pods = \<lparr>Group = [], Version = ''v1'', Resource = ''pods'', Namespaced = True\<rparr>"

definition nodes :: ResourceType where
  "nodes = \<lparr>Group = [], Version = ''v1'', Resource = ''nodes'', Namespaced = False\<rparr>"

text \<open>
  The scenario of the specification (section 8): the listing holds the object \<open>a\<close>
  with token \<open>v1\<close>; the watcher yields Added \<open>b\<close>, Deleted \<open>a\<close>, then closes.
\<close>

definition list_a :: UnstructuredList where
  "list_a = \<lparr>Items = [Unstructured ''a'' [] ''{}''], GetResourceVersion = ''v1''\<rparr>"

definition added_b_deleted_a :: "select_case list" where
  "added_b_deleted_a =
     [recv \<lparr>Type = watch_Added, Object = Unstructured ''b'' [] ''{}''\<rparr>,
      recv \<lparr>Type = watch_Deleted, Object = Unstructured ''a'' [] ''{}''\<rparr>,
      recv closed_channel_Event]"

definition scenario_env :: env where
  "scenario_env = scripted (list_a, nil) (added_b_deleted_a, nil) (\<lambda>path. nil) t_C"

text \<open>
  Scripts of failures: a sink that refuses every call, a listing that fails, a watcher
  that yields an event and then sees the stop signal, an item and an event whose object
  has no metadata.
\<close>

definition opa_down_env :: "timer_case \<Rightarrow> env" where
  "opa_down_env t = scripted (list_a, nil) ([], nil) (\<lambda>path. foreign ''connection refused'') t"

definition list_fails_env :: env where
  "list_fails_env =
     scripted (no_items, foreign ''connection refused'') ([], nil) (\<lambda>path. nil) t_C"

definition added_b_then_quit :: "select_case list" where
  "added_b_then_quit =
     [recv \<lparr>Type = watch_Added, Object = Unstructured ''b'' [] ''{}''\<rparr>,
      quit,
      recv \<lparr>Type = watch_Deleted, Object = Unstructured ''a'' [] ''{}''\<rparr>]"

definition stop_env :: env where
  "stop_env = scripted (list_a, nil) (added_b_then_quit, nil) (\<lambda>path. nil) t_C"

definition list_a_null :: UnstructuredList where
  "list_a_null =
     \<lparr>Items = [Unstructured ''a'' [] ''{}'', NotObject ''null'', Unstructured ''c'' [] ''{}''],
      GetResourceVersion = ''v1''\<rparr>"

definition bad_item_env :: env where
  "bad_item_env = scripted (list_a_null, nil) ([], nil) (\<lambda>path. nil) t_C"

definition added_b_modified_null :: "select_case list" where
  "added_b_modified_null =
     [recv \<lparr>Type = watch_Added, Object = Unstructured ''b'' [] ''{}''\<rparr>,
      recv \<lparr>Type = watch_Modified, Object = NotObject ''null''\<rparr>,
      recv \<lparr>Type = watch_Deleted, Object = Unstructured ''a'' [] ''{}''\<rparr>]"

definition bad_event_env :: env where
  "bad_event_env = scripted (list_a, nil) (added_b_modified_null, nil) (\<lambda>path. nil) t_C"

section \<open>Properties\<close>

subsection \<open>The sink operations\<close>

lemma syncAdd_meta:
  "meta_Accessor obj = Inr m \<Longrightarrow>
   syncAdd ns env obj tr =
     (PutData_result env tr (object_path ns m) (object obj),
      tr @ [opa_PutData (object_path ns m) (object obj)])"
  by (simp add: syncAdd_def PutData_def Let_def object_path_def)

lemma syncRemove_meta:
  "meta_Accessor obj = Inr m \<Longrightarrow>
   syncRemove ns env obj tr =
     (PatchData_result env tr (object_path ns m) ''remove'',
      tr @ [opa_PatchData (object_path ns m) ''remove''])"
  by (simp add: syncRemove_def PatchData_def Let_def object_path_def)

lemma syncAdd_no_meta: "meta_Accessor obj = Inl e \<Longrightarrow> syncAdd ns env obj tr = (e, tr)"
  by (simp add: syncAdd_def)

lemma syncRemove_no_meta: "meta_Accessor obj = Inl e \<Longrightarrow> syncRemove ns env obj tr = (e, tr)"
  by (simp add: syncRemove_def)

lemma meta_Accessor_error: "meta_Accessor obj = Inl e \<Longrightarrow> e = errNotObject"
  by (cases obj) auto

lemma errNotObject_not_nil: "errNotObject \<noteq> nil"
  by (simp add: errNotObject_def)

text \<open>
  Claim C6. For an object whose metadata can be read, \<^verbatim>\<open>syncAdd\<close> stores it at the
  namespace, a slash and the name when the resource type is namespaced, and at the name
  alone when it is not; \<^verbatim>\<open>syncRemove\<close> removes at the same path.
\<close>

theorem path_of_object:
  assumes "meta_Accessor obj = Inr m"
  shows "snd (syncAdd ns env obj tr) =
           tr @ [opa_PutData (if Namespaced ns then GetNamespace m @ ''/'' @ GetName m else GetName m)
                   (object obj)]
       \<and> snd (syncRemove ns env obj tr) =
           tr @ [opa_PatchData (if Namespaced ns then GetNamespace m @ ''/'' @ GetName m else GetName m)
                   ''remove'']"
  using assms by (simp add: syncAdd_meta syncRemove_meta object_path_def)

theorem path_of_object_witness:
  "meta_Accessor (Unstructured ''foo'' ''bar'' ''{}'') = Inr \<lparr>GetName = ''foo'', GetNamespace = ''bar''\<rparr>
   \<and> snd (syncAdd pods idle_env (Unstructured ''foo'' ''bar'' ''{}'') []) =
        [opa_PutData ''bar/foo'' (object (Unstructured ''foo'' ''bar'' ''{}''))]
   \<and> snd (syncRemove pods idle_env (Unstructured ''foo'' ''bar'' ''{}'') []) =
        [opa_PatchData ''bar/foo'' ''remove'']
   \<and> snd (syncAdd nodes idle_env (Unstructured ''foo'' ''bar'' ''{}'') []) =
        [opa_PutData ''foo'' (object (Unstructured ''foo'' ''bar'' ''{}''))]
   \<and> snd (syncRemove nodes idle_env (Unstructured ''foo'' ''bar'' ''{}'') []) =
        [opa_PatchData ''foo'' ''remove'']"
proof -
  have acc: "meta_Accessor (Unstructured ''foo'' ''bar'' ''{}'') =
      Inr \<lparr>GetName = ''foo'', GetNamespace = ''bar''\<rparr>"
    by simp
  show ?thesis
    using acc path_of_object [OF acc, of pods idle_env "[]"]
      path_of_object [OF acc, of nodes idle_env "[]"]
    by (simp add: pods_def nodes_def)
qed

text \<open>
  Claim C10. For a namespaced resource type and an object whose namespace is the empty
  string, both operations use the path made of a slash and the name.
\<close>

theorem empty_namespace_path:
  assumes "Namespaced ns" and "meta_Accessor obj = Inr m" and "GetNamespace m = []"
  shows "snd (syncAdd ns env obj tr) = tr @ [opa_PutData (''/'' @ GetName m) (object obj)]
       \<and> snd (syncRemove ns env obj tr) = tr @ [opa_PatchData (''/'' @ GetName m) ''remove'']"
  using assms by (simp add: syncAdd_meta syncRemove_meta object_path_def)

theorem empty_namespace_path_witness:
  "Namespaced pods
   \<and> meta_Accessor (Unstructured ''foo'' [] ''{}'') = Inr \<lparr>GetName = ''foo'', GetNamespace = []\<rparr>
   \<and> snd (syncAdd pods idle_env (Unstructured ''foo'' [] ''{}'') []) =
        [opa_PutData ''/foo'' (object (Unstructured ''foo'' [] ''{}''))]
   \<and> snd (syncRemove pods idle_env (Unstructured ''foo'' [] ''{}'') []) =
        [opa_PatchData ''/foo'' ''remove'']"
proof -
  have ns: "Namespaced pods"
    by (simp add: pods_def)
  have acc: "meta_Accessor (Unstructured ''foo'' [] ''{}'') = Inr \<lparr>GetName = ''foo'', GetNamespace = []\<rparr>"
    by simp
  have empty: "GetNamespace \<lparr>GetName = ''foo'', GetNamespace = []\<rparr> = []"
    by simp
  show ?thesis
    using ns acc empty_namespace_path [OF ns acc empty, of idle_env "[]"] by simp
qed

subsection \<open>A cycle in which nothing fails\<close>

lemma watch_types_distinct:
  "watch_Added \<noteq> watch_Modified" "watch_Added \<noteq> watch_Deleted" "watch_Added \<noteq> watch_Error"
  "watch_Modified \<noteq> watch_Deleted" "watch_Modified \<noteq> watch_Error" "watch_Deleted \<noteq> watch_Error"
  by (simp_all add: watch_Added_def watch_Modified_def watch_Deleted_def watch_Error_def)

lemma syncAdd_ok:
  "\<forall>h path v. PutData_result env (tr0 @ h) path v = nil \<Longrightarrow> has_meta obj \<Longrightarrow>
   syncAdd ns env obj (tr0 @ tr) = (nil, tr0 @ tr @ [upsert_call ns obj])"
  by (cases obj) (simp_all add: syncAdd_meta)

lemma syncRemove_ok:
  "\<forall>h path op. PatchData_result env (tr0 @ h) path op = nil \<Longrightarrow> has_meta obj \<Longrightarrow>
   syncRemove ns env obj (tr0 @ tr) = (nil, tr0 @ tr @ [remove_call ns obj])"
  by (cases obj) (simp_all add: syncRemove_meta)

lemma list_add_ok:
  assumes "\<forall>h path v. PutData_result env (tr0 @ h) path v = nil"
  shows "list_all has_meta items \<Longrightarrow>
         list_add ns env items (tr0 @ tr) = (nil, tr0 @ tr @ map (upsert_call ns) items)"
proof (induction items arbitrary: tr)
  case Nil
  show ?case by simp
next
  case (Cons item items)
  from Cons.prems have "has_meta item" and rest: "list_all has_meta items"
    by simp_all
  then have "syncAdd ns env item (tr0 @ tr) = (nil, tr0 @ tr @ [upsert_call ns item])"
    using assms by (simp add: syncAdd_ok)
  then show ?case
    using Cons.IH [OF rest, of "tr @ [upsert_call ns item]"] by simp
qed

lemma event_loop_data_event:
  assumes put: "\<forall>h path v. PutData_result env (tr0 @ h) path v = nil"
    and patch: "\<forall>h path op. PatchData_result env (tr0 @ h) path op = nil"
    and data: "data_event evt"
    and m: "has_meta (Object evt)"
  shows "event_loop ns env (recv evt # ch) (tr0 @ tr) =
         event_loop ns env ch (tr0 @ tr @ [event_call ns evt])"
proof -
  note add = syncAdd_ok [OF put m, of ns tr] and rm = syncRemove_ok [OF patch m, of ns tr]
  from data consider "Type evt = watch_Added" | "Type evt = watch_Modified"
    | "Type evt = watch_Deleted"
    by (auto simp: data_event_def)
  then show ?thesis
  proof cases
    case 1
    then show ?thesis
      using add by (simp add: event_call_def watch_types_distinct)
  next
    case 2
    then show ?thesis
      using add by (simp add: event_call_def watch_types_distinct watch_types_distinct [symmetric])
  next
    case 3
    then show ?thesis
      using rm by (simp add: event_call_def watch_types_distinct watch_types_distinct [symmetric])
  qed
qed

lemma event_loop_ok:
  assumes put: "\<forall>h path v. PutData_result env (tr0 @ h) path v = nil"
    and patch: "\<forall>h path op. PatchData_result env (tr0 @ h) path op = nil"
  shows "list_all (\<lambda>evt. has_meta (Object evt)) (data_events ch) \<Longrightarrow>
         snd (event_loop ns env ch (tr0 @ tr)) = tr0 @ tr @ map (event_call ns) (data_events ch)"
proof (induction ch arbitrary: tr)
  case Nil
  show ?case by simp
next
  case (Cons c ch)
  show ?case
  proof (cases c)
    case quit
    then show ?thesis by simp
  next
    case (recv evt)
    show ?thesis
    proof (cases "data_event evt")
      case False
      then show ?thesis
        using recv by (simp add: data_event_def)
    next
      case True
      with Cons.prems recv have m: "has_meta (Object evt)"
        and rest: "list_all (\<lambda>evt. has_meta (Object evt)) (data_events ch)"
        by simp_all
      have "event_loop ns env (c # ch) (tr0 @ tr) =
          event_loop ns env ch (tr0 @ tr @ [event_call ns evt])"
        unfolding recv by (rule event_loop_data_event [OF put patch True m])
      then show ?thesis
        using recv True Cons.IH [OF rest, of "tr @ [event_call ns evt]"]
        by (simp del: event_loop.simps)
    qed
  qed
qed

lemma is_sink_upsert_call: "has_meta obj \<Longrightarrow> is_sink_call (upsert_call ns obj)"
  by (cases obj) simp_all

lemma is_sink_remove_call: "has_meta obj \<Longrightarrow> is_sink_call (remove_call ns obj)"
  by (cases obj) simp_all

lemma filter_sink_upserts:
  "list_all has_meta items \<Longrightarrow>
   filter is_sink_call (map (upsert_call ns) items) = map (upsert_call ns) items"
  by (induction items) (simp_all add: is_sink_upsert_call)

lemma filter_sink_events:
  "list_all (\<lambda>evt. has_meta (Object evt)) evts \<Longrightarrow>
   filter is_sink_call (map (event_call ns) evts) = map (event_call ns) evts"
  by (induction evts) (simp_all add: event_call_def is_sink_upsert_call is_sink_remove_call)

text \<open>
  Claim C2. Take a cycle whose listing returns \<open>result\<close> (items and token), whose sink
  calls all succeed, whose objects all carry metadata, and whose watcher, opened after
  the load, yields the events \<open>data_events ch\<close> before it ends. The calls of the cycle
  are then: the listing, one reset, one upsert per listed item in listing order, the
  opening of the watch, then the upsert or remove of each event in arrival order; so
  the sink sees the reset, the upserts of the items and the operations of the events, in
  that order, and no operation of an event comes before the last upsert of the load.
\<close>

theorem sink_sees_snapshot_then_events:
  assumes list: "List_result env tr = (result, nil)"
    and put: "\<forall>h path v. PutData_result env (tr @ h) path v = nil"
    and patch: "\<forall>h path op. PatchData_result env (tr @ h) path op = nil"
    and watch: "Watch_result env (tr @ resource_List # reset_call # map (upsert_call ns) (Items result))
                  (GetResourceVersion result) = (ch, nil)"
    and items: "list_all has_meta (Items result)"
    and events: "list_all (\<lambda>evt. has_meta (Object evt)) (data_events ch)"
  shows "snd (sync ns env tr) =
           tr @ resource_List # reset_call # map (upsert_call ns) (Items result)
              @ resource_Watch (GetResourceVersion result) # map (event_call ns) (data_events ch)
              @ (if fst (sync ns env tr) = None then [] else [w_Stop])
       \<and> filter is_sink_call (drop (length tr) (snd (sync ns env tr))) =
           reset_call # map (upsert_call ns) (Items result) @ map (event_call ns) (data_events ch)"
proof -
  let ?new2 = "[resource_List, reset_call]"
  let ?new3 = "?new2 @ map (upsert_call ns) (Items result)"
  let ?new4 = "?new3 @ [resource_Watch (GetResourceVersion result)]"
  have "PutData_result env (tr @ [resource_List]) ''/'' empty_map = nil"
    using put by blast
  then have reset: "syncReset env (tr @ [resource_List]) = (nil, tr @ ?new2)"
    by (simp add: syncReset_def PutData_def reset_call_def)
  have load: "list_add ns env (Items result) (tr @ ?new2) = (nil, tr @ ?new3)"
    using list_add_ok [OF put items, of ns ?new2] by simp
  have "sync_open ns env tr = (Inr ch, tr @ ?new4)"
    using list reset load watch by (simp add: sync_open_def)
  moreover have "snd (event_loop ns env ch (tr @ ?new4)) =
      tr @ ?new4 @ map (event_call ns) (data_events ch)"
    by (rule event_loop_ok [OF put patch events])
  ultimately have whole: "snd (sync ns env tr) =
      tr @ ?new4 @ map (event_call ns) (data_events ch)
        @ (if fst (sync ns env tr) = None then [] else [w_Stop])"
    by (cases "event_loop ns env ch (tr @ ?new4)") (auto simp: sync_def split: option.splits)
  have "filter is_sink_call (drop (length tr) (snd (sync ns env tr))) =
      reset_call # map (upsert_call ns) (Items result) @ map (event_call ns) (data_events ch)"
    by (simp add: whole reset_call_def filter_sink_upserts [OF items] filter_sink_events [OF events])
  with whole show ?thesis
    by simp
qed

theorem sink_sees_snapshot_then_events_witness:
  "List_result scenario_env [] = (list_a, nil)
   \<and> (\<forall>h path v. PutData_result scenario_env h path v = nil)
   \<and> (\<forall>h path op. PatchData_result scenario_env h path op = nil)
   \<and> list_all has_meta (Items list_a)
   \<and> list_all (\<lambda>evt. has_meta (Object evt)) (data_events added_b_deleted_a)
   \<and> sync nodes scenario_env [] =
       (Some errChannelClosed,
        [resource_List,
         opa_PutData ''/'' empty_map,
         opa_PutData ''a'' (object (Unstructured ''a'' [] ''{}'')),
         resource_Watch ''v1'',
         opa_PutData ''b'' (object (Unstructured ''b'' [] ''{}'')),
         opa_PatchData ''a'' ''remove'',
         w_Stop])
   \<and> filter is_sink_call (drop (length ([] :: trace)) (snd (sync nodes scenario_env []))) =
       [opa_PutData ''/'' empty_map,
        opa_PutData ''a'' (object (Unstructured ''a'' [] ''{}'')),
        opa_PutData ''b'' (object (Unstructured ''b'' [] ''{}'')),
        opa_PatchData ''a'' ''remove'']"
proof -
  have list: "List_result scenario_env [] = (list_a, nil)"
    by (simp add: scenario_env_def scripted_def)
  have put: "\<forall>h path v. PutData_result scenario_env ([] @ h) path v = nil"
    by (simp add: scenario_env_def scripted_def)
  have patch: "\<forall>h path op. PatchData_result scenario_env ([] @ h) path op = nil"
    by (simp add: scenario_env_def scripted_def)
  have watch: "Watch_result scenario_env
      ([] @ resource_List # reset_call # map (upsert_call nodes) (Items list_a))
      (GetResourceVersion list_a) = (added_b_deleted_a, nil)"
    by (simp add: scenario_env_def scripted_def)
  have items: "list_all has_meta (Items list_a)"
    by (simp add: list_a_def)
  have events: "list_all (\<lambda>evt. has_meta (Object evt)) (data_events added_b_deleted_a)"
    by (simp add: added_b_deleted_a_def data_event_def closed_channel_Event_def
        watch_Added_def watch_Modified_def watch_Deleted_def)
  have returned: "fst (sync nodes scenario_env []) = Some errChannelClosed"
    by (simp add: sync_def sync_open_def scenario_env_def scripted_def list_a_def syncReset_def
        PutData_def PatchData_def syncAdd_def syncRemove_def added_b_deleted_a_def
        closed_channel_Event_def watch_Added_def watch_Modified_def watch_Deleted_def
        watch_Error_def nodes_def)
  show ?thesis
    using list put patch items events returned
      sink_sees_snapshot_then_events [OF list put patch watch items events]
    by (simp add: prod_eq_iff list_a_def added_b_deleted_a_def data_event_def event_call_def
        closed_channel_Event_def reset_call_def object_path_def nodes_def
        watch_Added_def watch_Modified_def watch_Deleted_def)
qed

subsection \<open>The order of the sink calls in any cycle\<close>

lemma syncAdd_has_meta:
  "has_meta obj \<Longrightarrow> snd (syncAdd ns env obj tr) = tr @ [upsert_call ns obj]"
  by (cases obj) (simp_all add: syncAdd_meta)

lemma syncRemove_has_meta:
  "has_meta obj \<Longrightarrow> snd (syncRemove ns env obj tr) = tr @ [remove_call ns obj]"
  by (cases obj) (simp_all add: syncRemove_meta)

lemma list_add_take:
  "list_all has_meta items \<Longrightarrow>
   \<exists>k. snd (list_add ns env items tr) = tr @ map (upsert_call ns) (take k items) \<and>
       k \<le> length items \<and> (fst (list_add ns env items tr) = nil \<longrightarrow> k = length items)"
proof (induction items arbitrary: tr)
  case Nil
  show ?case by simp
next
  case (Cons item items)
  from Cons.prems have m: "has_meta item" and rest: "list_all has_meta items"
    by simp_all
  obtain err where step: "syncAdd ns env item tr = (err, tr @ [upsert_call ns item])"
    using syncAdd_has_meta [OF m, of ns env tr] by (cases "syncAdd ns env item tr") simp
  show ?case
  proof (cases "err = nil")
    case False
    with step show ?thesis
      by (intro exI [of _ "Suc 0"]) (simp add: errOPA_def errors_Wrap_def)
  next
    case True
    from Cons.IH [OF rest, of "tr @ [upsert_call ns item]"] obtain k
      where "snd (list_add ns env items (tr @ [upsert_call ns item])) =
          (tr @ [upsert_call ns item]) @ map (upsert_call ns) (take k items)"
        and "k \<le> length items"
        and "fst (list_add ns env items (tr @ [upsert_call ns item])) = nil \<longrightarrow> k = length items"
      by blast
    with step True show ?thesis
      by (intro exI [of _ "Suc k"]) simp
  qed
qed

lemma event_loop_data_step:
  assumes data: "data_event evt" and m: "has_meta (Object evt)"
  shows "\<exists>r. \<forall>ch. event_loop ns env (recv evt # ch) tr =
      (case r of Some err \<Rightarrow> (Some err, tr @ [event_call ns evt])
       | None \<Rightarrow> event_loop ns env ch (tr @ [event_call ns evt]))"
proof -
  obtain e1 where add: "syncAdd ns env (Object evt) tr = (e1, tr @ [upsert_call ns (Object evt)])"
    using syncAdd_has_meta [OF m, of ns env tr] by (cases "syncAdd ns env (Object evt) tr") simp
  obtain e2 where rm: "syncRemove ns env (Object evt) tr = (e2, tr @ [remove_call ns (Object evt)])"
    using syncRemove_has_meta [OF m, of ns env tr] by (cases "syncRemove ns env (Object evt) tr") simp
  from data consider (added) "Type evt = watch_Added" | (modified) "Type evt = watch_Modified"
    | (deleted) "Type evt = watch_Deleted"
    by (auto simp: data_event_def)
  then show ?thesis
  proof cases
    case added
    show ?thesis
    proof (cases "e1 = nil")
      case True
      with added add show ?thesis
        by (intro exI [of _ None]) (simp add: event_call_def watch_types_distinct)
    next
      case False
      with added add show ?thesis
        by (intro exI [of _ "Some (errOPA (errors_Wrap e1 ''add event''))"])
          (simp add: event_call_def watch_types_distinct)
    qed
  next
    case modified
    show ?thesis
    proof (cases "e1 = nil")
      case True
      with modified add show ?thesis
        by (intro exI [of _ None])
          (simp add: event_call_def watch_types_distinct watch_types_distinct [symmetric])
    next
      case False
      with modified add show ?thesis
        by (intro exI [of _ "Some (errOPA (errors_Wrap e1 ''modify event''))"])
          (simp add: event_call_def watch_types_distinct watch_types_distinct [symmetric])
    qed
  next
    case deleted
    show ?thesis
    proof (cases "e2 = nil")
      case True
      with deleted rm show ?thesis
        by (intro exI [of _ None])
          (simp add: event_call_def watch_types_distinct watch_types_distinct [symmetric])
    next
      case False
      with deleted rm show ?thesis
        by (intro exI [of _ "Some (errOPA (errors_Wrap e2 ''delete event''))"])
          (simp add: event_call_def watch_types_distinct watch_types_distinct [symmetric])
    qed
  qed
qed

lemma event_loop_take:
  "list_all (\<lambda>evt. has_meta (Object evt)) (data_events ch) \<Longrightarrow>
   \<exists>k. snd (event_loop ns env ch tr) = tr @ map (event_call ns) (take k (data_events ch))"
proof (induction ch arbitrary: tr)
  case Nil
  show ?case by simp
next
  case (Cons c ch)
  show ?case
  proof (cases c)
    case quit
    then show ?thesis by simp
  next
    case (recv evt)
    show ?thesis
    proof (cases "data_event evt")
      case False
      then show ?thesis
        using recv by (simp add: data_event_def)
    next
      case True
      with Cons.prems recv have m: "has_meta (Object evt)"
        and rest: "list_all (\<lambda>evt. has_meta (Object evt)) (data_events ch)"
        by simp_all
      from event_loop_data_step [OF True m, of ns env tr] obtain r
        where step: "event_loop ns env (recv evt # ch) tr =
          (case r of Some err \<Rightarrow> (Some err, tr @ [event_call ns evt])
           | None \<Rightarrow> event_loop ns env ch (tr @ [event_call ns evt]))"
        by blast
      show ?thesis
      proof (cases r)
        case (Some err)
        with step recv True show ?thesis
          by (intro exI [of _ "Suc 0"]) (simp del: event_loop.simps)
      next
        case None
        from Cons.IH [OF rest, of "tr @ [event_call ns evt]"] obtain k
          where "snd (event_loop ns env ch (tr @ [event_call ns evt])) =
            (tr @ [event_call ns evt]) @ map (event_call ns) (take k (data_events ch))"
          by blast
        with step recv True None show ?thesis
          by (intro exI [of _ "Suc k"]) (simp del: event_loop.simps)
      qed
    qed
  qed
qed

text \<open>
  In every cycle whose listing succeeds and whose objects carry metadata, whatever the
  sink and the watch answer, the sink calls made are an initial part of: the reset, the
  upserts of the items in listing order, the operations of the events in arrival order.
\<close>

lemma sink_calls_in_order:
  assumes list: "List_result env tr = (result, nil)"
    and watch: "fst (Watch_result env
                  (tr @ resource_List # reset_call # map (upsert_call ns) (Items result))
                  (GetResourceVersion result)) = ch"
    and items: "list_all has_meta (Items result)"
    and events: "list_all (\<lambda>evt. has_meta (Object evt)) (data_events ch)"
  shows "\<exists>k. filter is_sink_call (drop (length tr) (snd (sync ns env tr))) =
           take k (reset_call # map (upsert_call ns) (Items result)
                     @ map (event_call ns) (data_events ch))"
proof -
  let ?ups = "map (upsert_call ns) (Items result)"
  let ?evs = "map (event_call ns) (data_events ch)"
  let ?tr2 = "tr @ [resource_List, reset_call]"
  obtain e2 where reset: "syncReset env (tr @ [resource_List]) = (e2, ?tr2)"
    by (simp add: syncReset_def PutData_def reset_call_def)
  obtain e3 tr3 where load: "list_add ns env (Items result) ?tr2 = (e3, tr3)"
    by (cases "list_add ns env (Items result) ?tr2")
  with list_add_take [OF items, of ns env ?tr2] obtain k3
    where tr3: "tr3 = ?tr2 @ map (upsert_call ns) (take k3 (Items result))"
      and k3: "e3 = nil \<longrightarrow> k3 = length (Items result)"
      and k3': "k3 \<le> length (Items result)"
    by auto
  from items have "list_all has_meta (take k3 (Items result))"
    by (auto simp: list_all_iff dest: in_set_takeD)
  then have sinks3: "filter is_sink_call (map (upsert_call ns) (take k3 (Items result))) =
      take k3 ?ups"
    by (simp add: filter_sink_upserts take_map)
  show ?thesis
  proof (cases "e2 = nil")
    case False
    with list reset have "snd (sync ns env tr) = ?tr2"
      by (simp add: sync_def sync_open_def)
    then show ?thesis
      by (intro exI [of _ "Suc 0"]) (simp add: reset_call_def)
  next
    case cleared: True
    show ?thesis
    proof (cases "e3 = nil")
      case False
      with list reset cleared load have "snd (sync ns env tr) = tr3"
        by (simp add: sync_def sync_open_def)
      with tr3 sinks3 k3' show ?thesis
        by (intro exI [of _ "Suc k3"]) (simp add: reset_call_def)
    next
      case loaded: True
      with k3 tr3 have tr3': "tr3 = ?tr2 @ ?ups"
        by simp
      let ?tr4 = "tr3 @ [resource_Watch (GetResourceVersion result)]"
      obtain e4 where w: "Watch_result env tr3 (GetResourceVersion result) = (ch, e4)"
        using watch tr3' by (cases "Watch_result env tr3 (GetResourceVersion result)") simp
      have ups: "filter is_sink_call ?ups = ?ups"
        by (rule filter_sink_upserts [OF items])
      show ?thesis
      proof (cases "e4 = nil")
        case False
        with list reset cleared load loaded w have "snd (sync ns env tr) = ?tr4"
          by (simp add: sync_def sync_open_def)
        with tr3' ups show ?thesis
          by (intro exI [of _ "Suc (length ?ups)"]) (simp add: reset_call_def)
      next
        case True
        with list reset cleared load loaded w have opened: "sync_open ns env tr = (Inr ch, ?tr4)"
          by (simp add: sync_open_def)
        from event_loop_take [OF events, of ns env ?tr4] obtain k
          where looped: "snd (event_loop ns env ch ?tr4) =
            ?tr4 @ map (event_call ns) (take k (data_events ch))"
          by blast
        from events have "list_all (\<lambda>evt. has_meta (Object evt)) (take k (data_events ch))"
          by (auto simp: list_all_iff dest: in_set_takeD)
        then have evs: "filter is_sink_call (map (event_call ns) (take k (data_events ch))) =
            take k ?evs"
          by (simp add: filter_sink_events take_map)
        from opened looped have "snd (sync ns env tr) =
            ?tr4 @ map (event_call ns) (take k (data_events ch))
              @ (if fst (sync ns env tr) = None then [] else [w_Stop])"
          by (cases "event_loop ns env ch ?tr4") (auto simp: sync_def split: option.splits)
        with tr3' ups evs have "filter is_sink_call (drop (length tr) (snd (sync ns env tr))) =
            reset_call # ?ups @ take k ?evs"
          by (simp add: reset_call_def)
        then show ?thesis
          by (intro exI [of _ "Suc (length ?ups + k)"]) simp
      qed
    qed
  qed
qed

subsection \<open>The shape of the trace of a cycle\<close>

lemma syncAdd_calls:
  "\<exists>new. snd (syncAdd ns env obj tr) = tr @ new \<and> list_all is_sink_call new"
  by (cases obj) (simp_all add: syncAdd_def PutData_def Let_def)

lemma syncRemove_calls:
  "\<exists>new. snd (syncRemove ns env obj tr) = tr @ new \<and> list_all is_sink_call new"
  by (cases obj) (simp_all add: syncRemove_def PatchData_def Let_def)

lemma list_add_calls:
  "\<exists>new. snd (list_add ns env items tr) = tr @ new \<and> list_all is_sink_call new"
proof (induction items arbitrary: tr)
  case Nil
  show ?case by simp
next
  case (Cons item items)
  obtain err tr1 where step: "syncAdd ns env item tr = (err, tr1)"
    by (cases "syncAdd ns env item tr")
  with syncAdd_calls [of ns env item tr] obtain new1
    where tr1: "tr1 = tr @ new1" and new1: "list_all is_sink_call new1"
    by auto
  from Cons.IH [of tr1] obtain new2
    where rest: "snd (list_add ns env items tr1) = tr1 @ new2" and new2: "list_all is_sink_call new2"
    by blast
  show ?case
  proof (cases "err = nil")
    case True
    with step rest tr1 new1 new2 show ?thesis by simp
  next
    case False
    with step tr1 new1 show ?thesis by simp
  qed
qed

lemma event_loop_calls:
  "\<exists>new. snd (event_loop ns env ch tr) = tr @ new \<and> list_all is_sink_call new"
proof (induction ns env ch tr rule: event_loop.induct)
  case (1 ns env tr)
  show ?case by simp
next
  case (2 ns env ch tr)
  show ?case by simp
next
  case (3 ns env evt ch tr)
  obtain e1 t1 where add: "syncAdd ns env (Object evt) tr = (e1, t1)"
    by (cases "syncAdd ns env (Object evt) tr")
  obtain e2 t2 where rm: "syncRemove ns env (Object evt) tr = (e2, t2)"
    by (cases "syncRemove ns env (Object evt) tr")
  from add syncAdd_calls [of ns env "Object evt" tr] obtain n1
    where t1: "t1 = tr @ n1" and n1: "list_all is_sink_call n1"
    by auto
  from rm syncRemove_calls [of ns env "Object evt" tr] obtain n2
    where t2: "t2 = tr @ n2" and n2: "list_all is_sink_call n2"
    by auto
  consider (added) "Type evt = watch_Added"
    | (modified) "Type evt \<noteq> watch_Added" "Type evt = watch_Modified"
    | (deleted) "Type evt \<noteq> watch_Added" "Type evt \<noteq> watch_Modified" "Type evt = watch_Deleted"
    | (other) "Type evt \<noteq> watch_Added" "Type evt \<noteq> watch_Modified" "Type evt \<noteq> watch_Deleted"
    by blast
  then show ?case
  proof cases
    case added
    show ?thesis
    proof (cases "e1 = nil")
      case True
      from True have "\<not> e1 \<noteq> nil"
        by simp
      from "3.IH"(1) [OF added add [symmetric] this] obtain n
        where "snd (event_loop ns env ch t1) = t1 @ n" "list_all is_sink_call n"
        by auto
      with added add True t1 n1 show ?thesis by simp
    next
      case False
      with added add t1 n1 show ?thesis by simp
    qed
  next
    case modified
    show ?thesis
    proof (cases "e1 = nil")
      case True
      from True have "\<not> e1 \<noteq> nil"
        by simp
      from "3.IH"(2) [OF modified add [symmetric] this] obtain n
        where "snd (event_loop ns env ch t1) = t1 @ n" "list_all is_sink_call n"
        by auto
      with modified add True t1 n1 show ?thesis by simp
    next
      case False
      with modified add t1 n1 show ?thesis by simp
    qed
  next
    case deleted
    show ?thesis
    proof (cases "e2 = nil")
      case True
      from True have "\<not> e2 \<noteq> nil"
        by simp
      from "3.IH"(3) [OF deleted rm [symmetric] this] obtain n
        where "snd (event_loop ns env ch t2) = t2 @ n" "list_all is_sink_call n"
        by auto
      with deleted rm True t2 n2 show ?thesis by simp
    next
      case False
      with deleted rm t2 n2 show ?thesis by simp
    qed
  next
    case other
    then show ?thesis by simp
  qed
qed

lemma list_all_weaken: "list_all P xs \<Longrightarrow> (\<And>x. P x \<Longrightarrow> Q x) \<Longrightarrow> list_all Q xs"
  by (induction xs) simp_all

lemma sync_open_calls:
  "\<exists>new. snd (sync_open ns env tr) = tr @ resource_List # new \<and>
     list_all (\<lambda>c. is_sink_call c \<or> c = resource_Watch (GetResourceVersion (fst (List_result env tr))))
       new"
proof -
  let ?rv = "GetResourceVersion (fst (List_result env tr))"
  let ?ok = "\<lambda>c. is_sink_call c \<or> c = resource_Watch ?rv"
  obtain result err where list: "List_result env tr = (result, err)"
    by (cases "List_result env tr")
  let ?tr2 = "tr @ [resource_List, opa_PutData ''/'' empty_map]"
  obtain e2 where reset: "syncReset env (tr @ [resource_List]) = (e2, ?tr2)"
    by (simp add: syncReset_def PutData_def)
  obtain e3 tr3 where load: "list_add ns env (Items result) ?tr2 = (e3, tr3)"
    by (cases "list_add ns env (Items result) ?tr2")
  with list_add_calls [of ns env "Items result" ?tr2] obtain new3
    where tr3: "tr3 = ?tr2 @ new3" and new3: "list_all is_sink_call new3"
    by auto
  from new3 have new3': "list_all ?ok new3"
    by (rule list_all_weaken) simp
  obtain w e4 where watch: "Watch_result env tr3 (GetResourceVersion result) = (w, e4)"
    by (cases "Watch_result env tr3 (GetResourceVersion result)")
  show ?thesis
  proof (cases "err = nil")
    case False
    with list show ?thesis by (simp add: sync_open_def)
  next
    case listed: True
    show ?thesis
    proof (cases "e2 = nil")
      case False
      with list listed reset show ?thesis by (simp add: sync_open_def)
    next
      case cleared: True
      show ?thesis
      proof (cases "e3 = nil")
        case False
        with list listed reset cleared load tr3 new3' show ?thesis
          by (simp add: sync_open_def)
      next
        case True
        with list listed reset cleared load tr3 new3' watch show ?thesis
          by (cases "e4 = nil") (simp_all add: sync_open_def Let_def)
      qed
    qed
  qed
qed

lemma sync_calls:
  "\<exists>new. snd (sync ns env tr) = tr @ resource_List # new \<and>
     list_all (\<lambda>c. is_sink_call c \<or> c = resource_Watch (GetResourceVersion (fst (List_result env tr)))
                  \<or> c = w_Stop) new"
proof -
  let ?rv = "GetResourceVersion (fst (List_result env tr))"
  let ?ok = "\<lambda>c. is_sink_call c \<or> c = resource_Watch ?rv \<or> c = w_Stop"
  obtain r tr1 where opened: "sync_open ns env tr = (r, tr1)"
    by (cases "sync_open ns env tr")
  with sync_open_calls [of ns env tr] obtain new1
    where tr1: "tr1 = tr @ resource_List # new1"
      and "list_all (\<lambda>c. is_sink_call c \<or> c = resource_Watch ?rv) new1"
    by auto
  then have new1: "list_all ?ok new1"
    by (auto elim: list_all_weaken)
  show ?thesis
  proof (cases r)
    case (Inl err)
    with opened tr1 new1 show ?thesis by (simp add: sync_def)
  next
    case (Inr ch)
    obtain r2 tr2 where looped: "event_loop ns env ch tr1 = (r2, tr2)"
      by (cases "event_loop ns env ch tr1")
    with event_loop_calls [of ns env ch tr1] obtain new2
      where tr2: "tr2 = tr1 @ new2" and "list_all is_sink_call new2"
      by auto
    then have new2: "list_all ?ok new2"
      by (auto elim: list_all_weaken)
    from opened Inr looped tr1 tr2 new1 new2 show ?thesis
      by (cases r2) (simp_all add: sync_def)
  qed
qed

text \<open>
  Claim C8. Every \<^verbatim>\<open>Watch\<close> call that a cycle makes carries the resource version
  of the result of the \<^verbatim>\<open>List\<close> call of that same cycle.
\<close>

theorem watch_opened_with_listed_token:
  assumes "resource_Watch rv \<in> set (drop (length tr) (snd (sync ns env tr)))"
  shows "rv = GetResourceVersion (fst (List_result env tr))"
proof -
  from sync_calls [of ns env tr] obtain new
    where tr': "snd (sync ns env tr) = tr @ resource_List # new"
      and new: "list_all (\<lambda>c. is_sink_call c \<or>
          c = resource_Watch (GetResourceVersion (fst (List_result env tr))) \<or> c = w_Stop) new"
    by blast
  from assms tr' have "resource_Watch rv \<in> set new"
    by simp
  with new have "is_sink_call (resource_Watch rv) \<or>
      resource_Watch rv = resource_Watch (GetResourceVersion (fst (List_result env tr))) \<or>
      resource_Watch rv = w_Stop"
    by (auto simp: list_all_iff)
  then show ?thesis
    by simp
qed

theorem watch_opened_with_listed_token_witness:
  "resource_Watch ''v1'' \<in> set (drop (length ([] :: trace)) (snd (sync nodes scenario_env [])))
   \<and> ''v1'' = GetResourceVersion (fst (List_result scenario_env []))"
proof -
  have opened: "resource_Watch ''v1'' \<in> set (drop (length ([] :: trace)) (snd (sync nodes scenario_env [])))"
    by (simp add: sync_def sync_open_def scenario_env_def scripted_def list_a_def syncReset_def
        PutData_def PatchData_def syncAdd_def syncRemove_def added_b_deleted_a_def
        closed_channel_Event_def watch_Added_def watch_Modified_def watch_Deleted_def
        watch_Error_def nodes_def)
  from opened watch_opened_with_listed_token [OF opened] show ?thesis
    by simp
qed

subsection \<open>The retry loop\<close>

lemma type_switch_errChannelClosed: "type_switch errChannelClosed = case_errChannelClosed"
  by (simp add: type_switch_def is_errChannelClosed_def)

lemma type_switch_other:
  "err \<noteq> nil \<Longrightarrow> err \<noteq> errChannelClosed \<Longrightarrow> type_switch err = case_errOPA"
  by (simp add: type_switch_def is_errChannelClosed_def is_errOPA_def)

lemma type_switch_never_errKubernetes: "type_switch err \<noteq> case_errKubernetes"
  by (simp add: type_switch_def is_errOPA_def is_errKubernetes_def)

lemma errOPA_Wrap: "cause \<noteq> nil \<Longrightarrow> errOPA (errors_Wrap cause msg) = withStack cause msg"
  by (simp add: errOPA_def errors_Wrap_def)

lemma loop_body_errOPA:
  assumes "sync ns env tr = (Some err, tr1)" and "err \<noteq> nil" and "err \<noteq> errChannelClosed"
  shows "loop_body ns env delay tr =
     backoff_wait env backoffMin
       (tr1 @ [logrus_Errorf
          ''Sync for %v failed due to OPA error. Trying again in %v. Reason: %v'' delay])"
  using assms by (simp add: loop_body_def loop_switch_def type_switch_other)

lemma loop_body_errChannelClosed:
  assumes "sync ns env tr = (Some errChannelClosed, tr1)"
  shows "loop_body ns env delay tr =
     Continue backoffMin
       (tr1 @ [logrus_Infof ''Sync channel for %v closed. Restarting immediately.''])"
  using assms by (simp add: loop_body_def loop_switch_def type_switch_errChannelClosed)

lemma loop_body_nil:
  assumes "sync ns env tr = (Some nil, tr1)"
  shows "loop_body ns env delay tr = Return tr1"
  using assms by (simp add: loop_body_def loop_switch_def)

lemma backoff_wait_calls:
  "trace_of (backoff_wait env delay tr) = tr @ [time_NewTimer delay]"
  by (simp add: backoff_wait_def Let_def split: timer_case.splits)

lemma loop_body_calls: "\<exists>new. trace_of (loop_body ns env delay tr) = tr @ resource_List # new"
proof -
  obtain r tr1 where cycle: "sync ns env tr = (r, tr1)"
    by (cases "sync ns env tr")
  with sync_calls [of ns env tr] obtain new1 where tr1: "tr1 = tr @ resource_List # new1"
    by auto
  show ?thesis
  proof (cases r)
    case None
    with cycle tr1 show ?thesis by (simp add: loop_body_def loop_switch_def)
  next
    case (Some err)
    with cycle tr1 show ?thesis
      by (cases "type_switch err") (simp_all add: loop_body_def loop_switch_def backoff_wait_calls Let_def)
  qed
qed

lemma loop_for_calls: "\<exists>new. trace_of (loop_for fuel ns env delay tr) = tr @ new"
proof (induction fuel arbitrary: delay tr)
  case 0
  show ?case by simp
next
  case (Suc fuel)
  from loop_body_calls [of ns env delay tr] obtain new1
    where body: "trace_of (loop_body ns env delay tr) = tr @ resource_List # new1"
    by blast
  show ?case
  proof (cases "loop_body ns env delay tr")
    case (Return tr1)
    with body show ?thesis by simp
  next
    case (Pending tr1)
    with body show ?thesis by simp
  next
    case (Continue delay1 tr1)
    with body have "tr1 = tr @ resource_List # new1"
      by simp
    with Suc.IH [of delay1 tr1] Continue show ?thesis
      by auto
  qed
qed

lemma loop_for_starts_with_List:
  "\<exists>new. trace_of (loop_for (Suc fuel) ns env delay tr) = tr @ resource_List # new"
proof -
  from loop_body_calls [of ns env delay tr] obtain new1
    where body: "trace_of (loop_body ns env delay tr) = tr @ resource_List # new1"
    by blast
  show ?thesis
  proof (cases "loop_body ns env delay tr")
    case (Return tr1)
    with body show ?thesis by simp
  next
    case (Pending tr1)
    with body show ?thesis by simp
  next
    case (Continue delay1 tr1)
    with body have "tr1 = tr @ resource_List # new1"
      by simp
    with loop_for_calls [of fuel ns env delay1 tr1] Continue show ?thesis
      by auto
  qed
qed

text \<open>
  Claim C4. When a cycle returns an error built by \<^verbatim>\<open>errOPA(errors.Wrap(cause, msg))\<close>,
  whatever the delay was, the loop creates a timer of \<^verbatim>\<open>backoffMin\<close>; when the timer
  fires it goes on with the delay \<^verbatim>\<open>backoffMin\<close>, and when \<^verbatim>\<open>quit\<close> is received
  first it returns at once.
\<close>

theorem sink_failure_waits_minimum:
  assumes "sync ns env tr = (Some (errOPA (errors_Wrap cause msg)), tr1)" and "cause \<noteq> nil"
  shows "loop_for (Suc fuel) ns env delay tr =
     (case backoff_select env
             (tr1 @ [logrus_Errorf
                ''Sync for %v failed due to OPA error. Trying again in %v. Reason: %v'' delay,
                time_NewTimer backoffMin]) of
        t_C \<Rightarrow>
          loop_for fuel ns env backoffMin
             (tr1 @ [logrus_Errorf
                ''Sync for %v failed due to OPA error. Trying again in %v. Reason: %v'' delay,
                time_NewTimer backoffMin])
      | timer_quit \<Rightarrow>
          Return
             (tr1 @ [logrus_Errorf
                ''Sync for %v failed due to OPA error. Trying again in %v. Reason: %v'' delay,
                time_NewTimer backoffMin]))"
proof -
  from assms have "sync ns env tr = (Some (withStack cause msg), tr1)"
    by (simp add: errOPA_Wrap)
  then have "loop_body ns env delay tr =
     backoff_wait env backoffMin
       (tr1 @ [logrus_Errorf
          ''Sync for %v failed due to OPA error. Trying again in %v. Reason: %v'' delay])"
    by (rule loop_body_errOPA) simp_all
  then show ?thesis
    by (simp add: backoff_wait_def Let_def split: timer_case.splits)
qed

theorem sink_failure_waits_minimum_witness:
  "sync pods (opa_down_env t_C) [] =
       (Some (errOPA (errors_Wrap (foreign ''connection refused'') ''reset'')),
        [resource_List, opa_PutData ''/'' empty_map])
   \<and> foreign ''connection refused'' \<noteq> nil
   \<and> loop_for (Suc 0) pods (opa_down_env t_C) (time_Second * 8) [] =
       Continue 1000000000
         [resource_List, opa_PutData ''/'' empty_map,
          logrus_Errorf ''Sync for %v failed due to OPA error. Trying again in %v. Reason: %v''
            8000000000,
          time_NewTimer 1000000000]
   \<and> loop_for (Suc 0) pods (opa_down_env timer_quit) (time_Second * 8) [] =
       Return
         [resource_List, opa_PutData ''/'' empty_map,
          logrus_Errorf ''Sync for %v failed due to OPA error. Trying again in %v. Reason: %v''
            8000000000,
          time_NewTimer 1000000000]"
proof -
  have cycle: "sync pods (opa_down_env t) [] =
       (Some (errOPA (errors_Wrap (foreign ''connection refused'') ''reset'')),
        [resource_List, opa_PutData ''/'' empty_map])" for t
    by (simp add: sync_def sync_open_def opa_down_env_def scripted_def syncReset_def PutData_def
        errors_Wrap_def errOPA_def)
  have cause: "foreign ''connection refused'' \<noteq> nil"
    by simp
  show ?thesis
    using cycle [of t_C] cause
      sink_failure_waits_minimum [OF cycle [of t_C] cause, where fuel = 0 and delay = "time_Second * 8"]
      sink_failure_waits_minimum [OF cycle [of timer_quit] cause, where fuel = 0
        and delay = "time_Second * 8"]
    by (simp add: opa_down_env_def scripted_def backoffMin_def time_Second_def)
qed

text \<open>
  Claim C5. When a cycle returns \<^verbatim>\<open>errChannelClosed\<close>, the loop goes on with the
  delay \<^verbatim>\<open>backoffMin\<close> after the log line alone, and the next call of the worker is
  the \<^verbatim>\<open>List\<close> of the next cycle: no timer is created in between.
\<close>

theorem channel_closed_restarts_at_once:
  assumes "sync ns env tr = (Some errChannelClosed, tr1)"
  shows "loop_for (Suc fuel) ns env delay tr =
           loop_for fuel ns env backoffMin
             (tr1 @ [logrus_Infof ''Sync channel for %v closed. Restarting immediately.''])
       \<and> (\<exists>new. trace_of (loop_for (Suc (Suc fuel)) ns env delay tr) =
             tr1 @ logrus_Infof ''Sync channel for %v closed. Restarting immediately.''
               # resource_List # new)"
proof -
  let ?tr2 = "tr1 @ [logrus_Infof ''Sync channel for %v closed. Restarting immediately.'']"
  have step: "loop_for (Suc n) ns env delay tr = loop_for n ns env backoffMin ?tr2" for n
    using loop_body_errChannelClosed [OF assms, of delay] by simp
  from loop_for_starts_with_List [of fuel ns env backoffMin ?tr2] obtain new
    where "trace_of (loop_for (Suc fuel) ns env backoffMin ?tr2) = ?tr2 @ resource_List # new"
    by blast
  then have "trace_of (loop_for (Suc (Suc fuel)) ns env delay tr) = ?tr2 @ resource_List # new"
    by (simp only: step)
  with step [of fuel] show ?thesis
    by simp
qed

theorem channel_closed_restarts_at_once_witness:
  "sync nodes scenario_env [] =
       (Some errChannelClosed,
        [resource_List,
         opa_PutData ''/'' empty_map,
         opa_PutData ''a'' (object (Unstructured ''a'' [] ''{}'')),
         resource_Watch ''v1'',
         opa_PutData ''b'' (object (Unstructured ''b'' [] ''{}'')),
         opa_PatchData ''a'' ''remove'',
         w_Stop])
   \<and> loop_for (Suc 0) nodes scenario_env (time_Second * 8) [] =
       Continue 1000000000
        [resource_List,
         opa_PutData ''/'' empty_map,
         opa_PutData ''a'' (object (Unstructured ''a'' [] ''{}'')),
         resource_Watch ''v1'',
         opa_PutData ''b'' (object (Unstructured ''b'' [] ''{}'')),
         opa_PatchData ''a'' ''remove'',
         w_Stop,
         logrus_Infof ''Sync channel for %v closed. Restarting immediately.'']
   \<and> (\<exists>new. trace_of (loop_for (Suc (Suc 0)) nodes scenario_env (time_Second * 8) []) =
        [resource_List,
         opa_PutData ''/'' empty_map,
         opa_PutData ''a'' (object (Unstructured ''a'' [] ''{}'')),
         resource_Watch ''v1'',
         opa_PutData ''b'' (object (Unstructured ''b'' [] ''{}'')),
         opa_PatchData ''a'' ''remove'',
         w_Stop,
         logrus_Infof ''Sync channel for %v closed. Restarting immediately.'',
         resource_List] @ new)"
proof -
  have cycle: "sync nodes scenario_env [] =
       (Some errChannelClosed,
        [resource_List,
         opa_PutData ''/'' empty_map,
         opa_PutData ''a'' (object (Unstructured ''a'' [] ''{}'')),
         resource_Watch ''v1'',
         opa_PutData ''b'' (object (Unstructured ''b'' [] ''{}'')),
         opa_PatchData ''a'' ''remove'',
         w_Stop])"
    by (simp add: sync_def sync_open_def scenario_env_def scripted_def list_a_def syncReset_def
        PutData_def PatchData_def syncAdd_def syncRemove_def added_b_deleted_a_def
        closed_channel_Event_def watch_Added_def watch_Modified_def watch_Deleted_def
        watch_Error_def nodes_def)
  show ?thesis
    using cycle channel_closed_restarts_at_once [OF cycle, where fuel = 0 and delay = "time_Second * 8"]
    by (simp add: backoffMin_def time_Second_def)
qed

subsection \<open>Cycles cut short\<close>

lemma list_add_append:
  "list_add ns env pre tr = (nil, tr1) \<Longrightarrow>
   list_add ns env (pre @ post) tr = list_add ns env post tr1"
proof (induction pre arbitrary: tr)
  case Nil
  then show ?case by simp
next
  case (Cons item pre)
  obtain err t where step: "syncAdd ns env item tr = (err, t)"
    by (cases "syncAdd ns env item tr")
  show ?case
  proof (cases "err = nil")
    case True
    with Cons.prems step have "list_add ns env pre t = (nil, tr1)"
      by simp
    from Cons.IH [OF this] step True show ?thesis
      by simp
  next
    case False
    with Cons.prems step show ?thesis
      by (simp add: errOPA_def errors_Wrap_def)
  qed
qed

lemma event_loop_step:
  "\<exists>r tr1. \<forall>ch. event_loop ns env (recv evt # ch) tr =
      (case r of Some err \<Rightarrow> (Some err, tr1) | None \<Rightarrow> event_loop ns env ch tr1)"
proof -
  obtain e1 t1 where add: "syncAdd ns env (Object evt) tr = (e1, t1)"
    by (cases "syncAdd ns env (Object evt) tr")
  obtain e2 t2 where rm: "syncRemove ns env (Object evt) tr = (e2, t2)"
    by (cases "syncRemove ns env (Object evt) tr")
  consider (added) "Type evt = watch_Added"
    | (modified) "Type evt \<noteq> watch_Added" "Type evt = watch_Modified"
    | (deleted) "Type evt \<noteq> watch_Added" "Type evt \<noteq> watch_Modified" "Type evt = watch_Deleted"
    | (other) "Type evt \<noteq> watch_Added" "Type evt \<noteq> watch_Modified" "Type evt \<noteq> watch_Deleted"
    by blast
  then show ?thesis
  proof cases
    case added
    show ?thesis
    proof (cases "e1 = nil")
      case True
      with added add show ?thesis
        by (intro exI [of _ None] exI [of _ t1]) simp
    next
      case False
      with added add show ?thesis
        by (intro exI [of _ "Some (errOPA (errors_Wrap e1 ''add event''))"] exI [of _ t1]) simp
    qed
  next
    case modified
    show ?thesis
    proof (cases "e1 = nil")
      case True
      with modified add show ?thesis
        by (intro exI [of _ None] exI [of _ t1]) simp
    next
      case False
      with modified add show ?thesis
        by (intro exI [of _ "Some (errOPA (errors_Wrap e1 ''modify event''))"] exI [of _ t1]) simp
    qed
  next
    case deleted
    show ?thesis
    proof (cases "e2 = nil")
      case True
      with deleted rm show ?thesis
        by (intro exI [of _ None] exI [of _ t2]) simp
    next
      case False
      with deleted rm show ?thesis
        by (intro exI [of _ "Some (errOPA (errors_Wrap e2 ''delete event''))"] exI [of _ t2]) simp
    qed
  next
    case other
    show ?thesis
    proof (cases "Type evt = watch_Error")
      case True
      with other show ?thesis
        by (intro exI [of _ "Some (errKubernetes (fmt_Errorf ''error event: %v'' (Object evt)))"]
            exI [of _ tr]) simp
    next
      case False
      with other show ?thesis
        by (intro exI [of _ "Some errChannelClosed"] exI [of _ tr]) simp
    qed
  qed
qed

lemma event_loop_append:
  "event_loop ns env pre tr = (None, tr1) \<Longrightarrow>
   event_loop ns env (pre @ rest) tr = event_loop ns env rest tr1"
proof (induction pre arbitrary: tr)
  case Nil
  then show ?case by simp
next
  case (Cons c pre)
  show ?case
  proof (cases c)
    case quit
    with Cons.prems show ?thesis by simp
  next
    case (recv evt)
    from event_loop_step [of ns env evt tr] obtain r t
      where step: "\<And>ch. event_loop ns env (recv evt # ch) tr =
          (case r of Some err \<Rightarrow> (Some err, t) | None \<Rightarrow> event_loop ns env ch t)"
      by blast
    show ?thesis
    proof (cases r)
      case None
      with Cons.prems recv step [of pre] have "event_loop ns env pre t = (None, tr1)"
        by simp
      from Cons.IH [OF this] recv None step [of "pre @ rest"] show ?thesis
        by simp
    next
      case (Some err)
      with Cons.prems recv step [of pre] show ?thesis
        by simp
    qed
  qed
qed

text \<open>
  Claim C7. When the select of the event loop observes the stop signal while the worker
  waits for the next event, \<^verbatim>\<open>sync\<close> returns \<^verbatim>\<open>nil\<close> and the worker returns;
  the only call after the stop is the deferred \<^verbatim>\<open>w.Stop()\<close>. When the select of a
  backoff wait observes the stop signal, the worker returns and the creation of the timer
  is its last call. In both cases the source and sink calls of the worker are those made
  before the stop.
\<close>

theorem stop_signal_ends_worker:
  "(sync_open ns env tr = (Inr (pre @ quit # rest), tr1) \<and> event_loop ns env pre tr1 = (None, tr2)
      \<longrightarrow> sync ns env tr = (Some nil, tr2 @ [w_Stop])
        \<and> loop_for (Suc fuel) ns env delay tr = Return (tr2 @ [w_Stop])
        \<and> filter (\<lambda>c. is_source_call c \<or> is_sink_call c)
             (trace_of (loop_for (Suc fuel) ns env delay tr)) =
           filter (\<lambda>c. is_source_call c \<or> is_sink_call c) tr2)
   \<and> (sync ns env tr = (Some err, tr3) \<and> err \<noteq> nil \<and> err \<noteq> errChannelClosed
      \<and> backoff_select env
           (tr3 @ [logrus_Errorf
              ''Sync for %v failed due to OPA error. Trying again in %v. Reason: %v'' delay,
              time_NewTimer backoffMin]) = timer_quit
      \<longrightarrow> loop_for (Suc fuel) ns env delay tr =
            Return (tr3 @ [logrus_Errorf
              ''Sync for %v failed due to OPA error. Trying again in %v. Reason: %v'' delay,
              time_NewTimer backoffMin])
        \<and> filter (\<lambda>c. is_source_call c \<or> is_sink_call c)
             (trace_of (loop_for (Suc fuel) ns env delay tr)) =
           filter (\<lambda>c. is_source_call c \<or> is_sink_call c) tr3)
   \<and> (backoff_select env (tr @ [time_NewTimer d]) = timer_quit
      \<longrightarrow> backoff_wait env d tr = Return (tr @ [time_NewTimer d]))"
proof (intro conjI impI)
  assume a: "sync_open ns env tr = (Inr (pre @ quit # rest), tr1) \<and>
    event_loop ns env pre tr1 = (None, tr2)"
  then have "event_loop ns env (pre @ quit # rest) tr1 = (Some nil, tr2)"
    by (simp add: event_loop_append)
  with a show cycle: "sync ns env tr = (Some nil, tr2 @ [w_Stop])"
    by (simp add: sync_def)
  then show ret: "loop_for (Suc fuel) ns env delay tr = Return (tr2 @ [w_Stop])"
    by (simp add: loop_body_nil)
  then show "filter (\<lambda>c. is_source_call c \<or> is_sink_call c)
       (trace_of (loop_for (Suc fuel) ns env delay tr)) =
     filter (\<lambda>c. is_source_call c \<or> is_sink_call c) tr2"
    by simp
next
  assume b: "sync ns env tr = (Some err, tr3) \<and> err \<noteq> nil \<and> err \<noteq> errChannelClosed
      \<and> backoff_select env
           (tr3 @ [logrus_Errorf
              ''Sync for %v failed due to OPA error. Trying again in %v. Reason: %v'' delay,
              time_NewTimer backoffMin]) = timer_quit"
  then have "loop_body ns env delay tr =
     backoff_wait env backoffMin
       (tr3 @ [logrus_Errorf
          ''Sync for %v failed due to OPA error. Trying again in %v. Reason: %v'' delay])"
    by (simp add: loop_body_errOPA)
  with b show ret: "loop_for (Suc fuel) ns env delay tr =
            Return (tr3 @ [logrus_Errorf
              ''Sync for %v failed due to OPA error. Trying again in %v. Reason: %v'' delay,
              time_NewTimer backoffMin])"
    by (simp add: backoff_wait_def)
  then show "filter (\<lambda>c. is_source_call c \<or> is_sink_call c)
       (trace_of (loop_for (Suc fuel) ns env delay tr)) =
     filter (\<lambda>c. is_source_call c \<or> is_sink_call c) tr3"
    by simp
next
  assume "backoff_select env (tr @ [time_NewTimer d]) = timer_quit"
  then show "backoff_wait env d tr = Return (tr @ [time_NewTimer d])"
    by (simp add: backoff_wait_def)
qed

theorem stop_signal_ends_worker_witness:
  "sync_open nodes stop_env [] =
     (Inr ([recv \<lparr>Type = watch_Added, Object = Unstructured ''b'' [] ''{}''\<rparr>] @ quit #
           [recv \<lparr>Type = watch_Deleted, Object = Unstructured ''a'' [] ''{}''\<rparr>]),
      [resource_List, opa_PutData ''/'' empty_map,
       opa_PutData ''a'' (object (Unstructured ''a'' [] ''{}'')), resource_Watch ''v1''])
   \<and> event_loop nodes stop_env [recv \<lparr>Type = watch_Added, Object = Unstructured ''b'' [] ''{}''\<rparr>]
       [resource_List, opa_PutData ''/'' empty_map,
        opa_PutData ''a'' (object (Unstructured ''a'' [] ''{}'')), resource_Watch ''v1''] =
     (None,
      [resource_List, opa_PutData ''/'' empty_map,
       opa_PutData ''a'' (object (Unstructured ''a'' [] ''{}'')), resource_Watch ''v1'',
       opa_PutData ''b'' (object (Unstructured ''b'' [] ''{}''))])
   \<and> loop_for (Suc 0) nodes stop_env backoffMin [] =
     Return
      [resource_List, opa_PutData ''/'' empty_map,
       opa_PutData ''a'' (object (Unstructured ''a'' [] ''{}'')), resource_Watch ''v1'',
       opa_PutData ''b'' (object (Unstructured ''b'' [] ''{}'')), w_Stop]
   \<and> sync pods (opa_down_env timer_quit) [] =
       (Some (withStack (foreign ''connection refused'') ''reset''),
        [resource_List, opa_PutData ''/'' empty_map])
   \<and> loop_for (Suc 0) pods (opa_down_env timer_quit) backoffMin [] =
       Return
         [resource_List, opa_PutData ''/'' empty_map,
          logrus_Errorf ''Sync for %v failed due to OPA error. Trying again in %v. Reason: %v''
            1000000000,
          time_NewTimer 1000000000]
   \<and> backoff_wait (opa_down_env timer_quit) 2000000000 [] = Return [time_NewTimer 2000000000]"
proof -
  let ?b = "recv \<lparr>Type = watch_Added, Object = Unstructured ''b'' [] ''{}''\<rparr>"
  let ?a = "recv \<lparr>Type = watch_Deleted, Object = Unstructured ''a'' [] ''{}''\<rparr>"
  let ?tr1 = "[resource_List, opa_PutData ''/'' empty_map,
       opa_PutData ''a'' (object (Unstructured ''a'' [] ''{}'')), resource_Watch ''v1'']"
  let ?tr2 = "?tr1 @ [opa_PutData ''b'' (object (Unstructured ''b'' [] ''{}''))]"
  let ?log = "logrus_Errorf ''Sync for %v failed due to OPA error. Trying again in %v. Reason: %v''"
  have opened: "sync_open nodes stop_env [] = (Inr ([?b] @ quit # [?a]), ?tr1)"
    by (simp add: sync_open_def stop_env_def scripted_def list_a_def syncReset_def PutData_def
        syncAdd_def added_b_then_quit_def nodes_def)
  have waiting: "event_loop nodes stop_env [?b] ?tr1 = (None, ?tr2)"
    by (simp add: stop_env_def scripted_def PutData_def syncAdd_def nodes_def)
  have cycle: "sync pods (opa_down_env timer_quit) [] =
       (Some (withStack (foreign ''connection refused'') ''reset''),
        [resource_List, opa_PutData ''/'' empty_map])"
    by (simp add: sync_def sync_open_def opa_down_env_def scripted_def syncReset_def PutData_def
        errors_Wrap_def errOPA_def)
  have stop: "backoff_select (opa_down_env timer_quit) h = timer_quit" for h
    by (simp add: opa_down_env_def scripted_def)
  note thm1 = stop_signal_ends_worker [where ns = nodes and env = stop_env and tr = "[]"
      and pre = "[?b]" and rest = "[?a]" and ?tr1.0 = ?tr1 and ?tr2.0 = ?tr2 and fuel = 0
      and delay = backoffMin, THEN conjunct1]
  note thm2 = stop_signal_ends_worker [where ns = pods and env = "opa_down_env timer_quit"
      and tr = "[]" and err = "withStack (foreign ''connection refused'') ''reset''"
      and ?tr3.0 = "[resource_List, opa_PutData ''/'' empty_map]" and fuel = 0
      and delay = backoffMin, THEN conjunct2, THEN conjunct1]
  note thm3 = stop_signal_ends_worker [where env = "opa_down_env timer_quit" and tr = "[]"
      and d = 2000000000, THEN conjunct2, THEN conjunct2]
  show ?thesis
    using opened waiting cycle thm1 thm2 thm3
    by (simp add: stop backoffMin_def time_Second_def)
qed

text \<open>
  Claim C9. When \<^verbatim>\<open>meta.Accessor\<close> fails on a listed item, or on the object of an
  Added, Modified or Deleted event, the cycle returns the accessor's error wrapped and
  converted by \<^verbatim>\<open>errOPA\<close>, with no sink call for that object; the loop then takes
  the \<^verbatim>\<open>errOPA\<close> case: from any delay it waits \<^verbatim>\<open>backoffMin\<close> and goes
  on with \<^verbatim>\<open>backoffMin\<close>.
\<close>

theorem malformed_object_is_sink_failure:
  "(List_result env tr = (result, nil) \<and> syncReset env (tr @ [resource_List]) = (nil, tr1)
      \<and> Items result = pre @ obj # post \<and> list_add ns env pre tr1 = (nil, tr2)
      \<and> meta_Accessor obj = Inl e
      \<longrightarrow> sync ns env tr = (Some (errOPA (errors_Wrap e ''list add'')), tr2))
   \<and> (sync_open ns env tr = (Inr (evs @ recv evt # rest), tr3)
      \<and> event_loop ns env evs tr3 = (None, tr4)
      \<and> data_event evt \<and> meta_Accessor (Object evt) = Inl e
      \<longrightarrow> sync ns env tr =
            (Some (errOPA (errors_Wrap e
               (if Type evt = watch_Added then ''add event''
                else if Type evt = watch_Modified then ''modify event''
                else ''delete event''))),
             tr4 @ [w_Stop]))
   \<and> (sync ns env tr = (Some (errOPA (errors_Wrap e msg)), tr5) \<and> meta_Accessor obj = Inl e
      \<longrightarrow> loop_for (Suc fuel) ns env delay tr =
           (case backoff_select env
                   (tr5 @ [logrus_Errorf
                      ''Sync for %v failed due to OPA error. Trying again in %v. Reason: %v'' delay,
                      time_NewTimer backoffMin]) of
              t_C \<Rightarrow>
                loop_for fuel ns env backoffMin
                   (tr5 @ [logrus_Errorf
                      ''Sync for %v failed due to OPA error. Trying again in %v. Reason: %v'' delay,
                      time_NewTimer backoffMin])
            | timer_quit \<Rightarrow>
                Return
                   (tr5 @ [logrus_Errorf
                      ''Sync for %v failed due to OPA error. Trying again in %v. Reason: %v'' delay,
                      time_NewTimer backoffMin])))"
proof (intro conjI impI)
  assume a: "List_result env tr = (result, nil) \<and> syncReset env (tr @ [resource_List]) = (nil, tr1)
      \<and> Items result = pre @ obj # post \<and> list_add ns env pre tr1 = (nil, tr2)
      \<and> meta_Accessor obj = Inl e"
  then have e: "e \<noteq> nil"
    using meta_Accessor_error [of obj e] errNotObject_not_nil by simp
  from a have "list_add ns env (Items result) tr1 = list_add ns env (obj # post) tr2"
    by (simp add: list_add_append)
  also from a e have "\<dots> = (errOPA (errors_Wrap e ''list add''), tr2)"
    by (simp add: syncAdd_no_meta)
  finally have "sync_open ns env tr = (Inl (errOPA (errors_Wrap e ''list add'')), tr2)"
    using a e by (simp add: sync_open_def errOPA_Wrap)
  then show "sync ns env tr = (Some (errOPA (errors_Wrap e ''list add'')), tr2)"
    by (simp add: sync_def)
next
  assume b: "sync_open ns env tr = (Inr (evs @ recv evt # rest), tr3)
      \<and> event_loop ns env evs tr3 = (None, tr4)
      \<and> data_event evt \<and> meta_Accessor (Object evt) = Inl e"
  let ?msg = "if Type evt = watch_Added then ''add event''
                else if Type evt = watch_Modified then ''modify event''
                else ''delete event''"
  from b have e: "e \<noteq> nil"
    using meta_Accessor_error [of "Object evt" e] errNotObject_not_nil by simp
  from b have "event_loop ns env (evs @ recv evt # rest) tr3 = event_loop ns env (recv evt # rest) tr4"
    by (simp add: event_loop_append)
  also from b e have "\<dots> = (Some (errOPA (errors_Wrap e ?msg)), tr4)"
    by (auto simp: data_event_def syncAdd_no_meta syncRemove_no_meta)
  finally show "sync ns env tr = (Some (errOPA (errors_Wrap e ?msg)), tr4 @ [w_Stop])"
    using b by (simp add: sync_def)
next
  let ?tr6 = "tr5 @ [logrus_Errorf
      ''Sync for %v failed due to OPA error. Trying again in %v. Reason: %v'' delay,
      time_NewTimer backoffMin]"
  assume c: "sync ns env tr = (Some (errOPA (errors_Wrap e msg)), tr5) \<and> meta_Accessor obj = Inl e"
  then have e: "e \<noteq> nil"
    using meta_Accessor_error [of obj e] errNotObject_not_nil by simp
  with c have "sync ns env tr = (Some (withStack e msg), tr5)"
    by (simp add: errOPA_Wrap)
  then have "loop_body ns env delay tr =
     backoff_wait env backoffMin
       (tr5 @ [logrus_Errorf
          ''Sync for %v failed due to OPA error. Trying again in %v. Reason: %v'' delay])"
    by (rule loop_body_errOPA) simp_all
  then show "loop_for (Suc fuel) ns env delay tr =
     (case backoff_select env ?tr6 of
        t_C \<Rightarrow> loop_for fuel ns env backoffMin ?tr6
      | timer_quit \<Rightarrow> Return ?tr6)"
    by (simp add: backoff_wait_def Let_def split: timer_case.splits)
qed

theorem malformed_object_is_sink_failure_witness:
  "meta_Accessor (NotObject ''null'') = Inl errNotObject
   \<and> sync nodes bad_item_env [] =
       (Some (withStack errNotObject ''list add''),
        [resource_List, opa_PutData ''/'' empty_map,
         opa_PutData ''a'' (object (Unstructured ''a'' [] ''{}''))])
   \<and> sync nodes bad_event_env [] =
       (Some (withStack errNotObject ''modify event''),
        [resource_List, opa_PutData ''/'' empty_map,
         opa_PutData ''a'' (object (Unstructured ''a'' [] ''{}'')), resource_Watch ''v1'',
         opa_PutData ''b'' (object (Unstructured ''b'' [] ''{}'')), w_Stop])
   \<and> loop_for (Suc 0) nodes bad_item_env (time_Second * 8) [] =
       Continue 1000000000
        [resource_List, opa_PutData ''/'' empty_map,
         opa_PutData ''a'' (object (Unstructured ''a'' [] ''{}'')),
         logrus_Errorf ''Sync for %v failed due to OPA error. Trying again in %v. Reason: %v''
           8000000000,
         time_NewTimer 1000000000]"
proof -
  let ?a = "Unstructured ''a'' [] ''{}''"
  let ?b = "recv \<lparr>Type = watch_Added, Object = Unstructured ''b'' [] ''{}''\<rparr>"
  let ?m = "\<lparr>Type = watch_Modified, Object = NotObject ''null''\<rparr>"
  let ?d = "recv \<lparr>Type = watch_Deleted, Object = Unstructured ''a'' [] ''{}''\<rparr>"
  let ?tr1 = "[resource_List, opa_PutData ''/'' empty_map]"
  let ?tr2 = "?tr1 @ [opa_PutData ''a'' (object ?a)]"
  let ?tr3 = "?tr2 @ [resource_Watch ''v1'']"
  let ?tr4 = "?tr3 @ [opa_PutData ''b'' (object (Unstructured ''b'' [] ''{}''))]"
  have acc: "meta_Accessor (NotObject ''null'') = Inl errNotObject"
    by simp
  have listed: "List_result bad_item_env [] = (list_a_null, nil)"
    by (simp add: bad_item_env_def scripted_def)
  have reset: "syncReset bad_item_env ([] @ [resource_List]) = (nil, ?tr1)"
    by (simp add: bad_item_env_def scripted_def syncReset_def PutData_def)
  have items: "Items list_a_null = [?a] @ NotObject ''null'' # [Unstructured ''c'' [] ''{}'']"
    by (simp add: list_a_null_def)
  have loaded: "list_add nodes bad_item_env [?a] ?tr1 = (nil, ?tr2)"
    by (simp add: bad_item_env_def scripted_def syncAdd_def PutData_def nodes_def)
  note thm1 = malformed_object_is_sink_failure [where ns = nodes and env = bad_item_env
      and tr = "[]" and result = list_a_null and ?tr1.0 = ?tr1 and pre = "[?a]"
      and obj = "NotObject ''null''" and post = "[Unstructured ''c'' [] ''{}'']"
      and ?tr2.0 = ?tr2 and e = errNotObject, THEN conjunct1]
  have cycle1: "sync nodes bad_item_env [] =
      (Some (errOPA (errors_Wrap errNotObject ''list add'')), ?tr2)"
    using thm1 acc listed reset items loaded by simp
  have opened: "sync_open nodes bad_event_env [] = (Inr ([?b] @ recv ?m # [?d]), ?tr3)"
    by (simp add: sync_open_def bad_event_env_def scripted_def list_a_def syncReset_def
        PutData_def syncAdd_def added_b_modified_null_def nodes_def)
  have waiting: "event_loop nodes bad_event_env [?b] ?tr3 = (None, ?tr4)"
    by (simp add: bad_event_env_def scripted_def PutData_def syncAdd_def nodes_def)
  have data: "data_event ?m"
    by (simp add: data_event_def)
  have acc2: "meta_Accessor (Object ?m) = Inl errNotObject"
    by simp
  note thm2 = malformed_object_is_sink_failure [where ns = nodes and env = bad_event_env
      and tr = "[]" and evs = "[?b]" and evt = ?m and rest = "[?d]" and ?tr3.0 = ?tr3
      and ?tr4.0 = ?tr4 and e = errNotObject, THEN conjunct2, THEN conjunct1]
  have cycle2: "sync nodes bad_event_env [] =
      (Some (errOPA (errors_Wrap errNotObject ''modify event'')), ?tr4 @ [w_Stop])"
    using thm2 opened waiting data acc2
    by (simp add: watch_Added_def watch_Modified_def)
  note thm3 = malformed_object_is_sink_failure [where ns = nodes and env = bad_item_env
      and tr = "[]" and e = errNotObject and msg = "''list add''" and ?tr5.0 = ?tr2
      and obj = "NotObject ''null''" and fuel = 0 and delay = "time_Second * 8",
      THEN conjunct2, THEN conjunct2]
  have wait: "loop_for (Suc 0) nodes bad_item_env (time_Second * 8) [] =
       Continue backoffMin
        (?tr2 @ [logrus_Errorf ''Sync for %v failed due to OPA error. Trying again in %v. Reason: %v''
           (time_Second * 8), time_NewTimer backoffMin])"
    using thm3 cycle1 acc by (simp add: bad_item_env_def scripted_def)
  show ?thesis
    using acc cycle1 cycle2 wait
    by (simp add: errOPA_def errors_Wrap_def errNotObject_def backoffMin_def time_Second_def)
qed

subsection \<open>The type switch and the Kubernetes errors\<close>

lemma waits_append: "waits (xs @ ys) = waits xs @ waits ys"
  by (induction xs rule: waits.induct) simp_all

lemma waits_no_timer:
  "list_all (\<lambda>c. is_sink_call c \<or> c = resource_Watch rv \<or> c = w_Stop) new \<Longrightarrow> waits new = []"
  by (induction new rule: waits.induct) auto

lemma waits_sync: "\<exists>new. snd (sync ns env tr) = tr @ new \<and> waits new = []"
proof -
  from sync_calls [of ns env tr] obtain new
    where "snd (sync ns env tr) = tr @ resource_List # new"
      and "list_all (\<lambda>c. is_sink_call c \<or>
          c = resource_Watch (GetResourceVersion (fst (List_result env tr))) \<or> c = w_Stop) new"
    by blast
  then show ?thesis
    by (intro exI [of _ "resource_List # new"]) (simp add: waits_no_timer)
qed

lemma waits_loop_body:
  "\<exists>new. trace_of (loop_body ns env delay tr) = tr @ new \<and> set (waits new) \<subseteq> {backoffMin}"
proof -
  obtain r tr1 where cycle: "sync ns env tr = (r, tr1)"
    by (cases "sync ns env tr")
  with waits_sync [of ns env tr] obtain new1 where tr1: "tr1 = tr @ new1" and new1: "waits new1 = []"
    by auto
  show ?thesis
  proof (cases r)
    case None
    with cycle tr1 new1 show ?thesis by (simp add: loop_body_def loop_switch_def)
  next
    case (Some err)
    show ?thesis
    proof (cases "type_switch err")
      case case_errKubernetes
      then show ?thesis by (simp add: type_switch_never_errKubernetes)
    next
      case case_errOPA
      with Some cycle tr1 new1 show ?thesis
        by (simp add: loop_body_def loop_switch_def backoff_wait_calls waits_append)
    next
      case case_errChannelClosed
      with Some cycle tr1 new1 show ?thesis
        by (simp add: loop_body_def loop_switch_def waits_append)
    next
      case no_case
      with Some cycle tr1 new1 show ?thesis
        by (simp add: loop_body_def loop_switch_def)
    qed
  qed
qed

text \<open>
  No run of the loop ever waits anything but \<^verbatim>\<open>backoffMin\<close>: the case that doubles
  the delay is never taken.
\<close>

lemma every_wait_is_backoffMin:
  "\<exists>new. trace_of (loop_for fuel ns env delay tr) = tr @ new \<and> set (waits new) \<subseteq> {backoffMin}"
proof (induction fuel arbitrary: delay tr)
  case 0
  show ?case by simp
next
  case (Suc fuel)
  from waits_loop_body [of ns env delay tr] obtain new1
    where body: "trace_of (loop_body ns env delay tr) = tr @ new1"
      and new1: "set (waits new1) \<subseteq> {backoffMin}"
    by blast
  show ?case
  proof (cases "loop_body ns env delay tr")
    case (Return tr1)
    with body new1 show ?thesis by simp
  next
    case (Pending tr1)
    with body new1 show ?thesis by simp
  next
    case (Continue delay1 tr1)
    with body have tr1: "tr1 = tr @ new1"
      by simp
    from Suc.IH [of delay1 tr1] obtain new2
      where "trace_of (loop_for fuel ns env delay1 tr1) = tr1 @ new2"
        and "set (waits new2) \<subseteq> {backoffMin}"
      by blast
    with Continue tr1 new1 show ?thesis
      by (intro exI [of _ "new1 @ new2"]) (simp add: waits_append)
  qed
qed

text \<open>
  What the \<^verbatim>\<open>errKubernetes\<close> case would do, were it taken: the delay is doubled
  before the wait, so from \<^verbatim>\<open>backoffMin\<close> the waits would be 2, 4, 8, 16, 30 and
  30 seconds, each announced in the log as the delay before the doubling.
\<close>

lemma errKubernetes_case_doubles:
  "loop_switch case_errKubernetes env 1000000000 tr =
     backoff_wait env 2000000000 (tr @ [logrus_Errorf
        ''Sync for %v failed due to Kubernetes error. Trying again in %v. Reason: %v'' 1000000000])
   \<and> loop_switch case_errKubernetes env 2000000000 tr =
     backoff_wait env 4000000000 (tr @ [logrus_Errorf
        ''Sync for %v failed due to Kubernetes error. Trying again in %v. Reason: %v'' 2000000000])
   \<and> loop_switch case_errKubernetes env 4000000000 tr =
     backoff_wait env 8000000000 (tr @ [logrus_Errorf
        ''Sync for %v failed due to Kubernetes error. Trying again in %v. Reason: %v'' 4000000000])
   \<and> loop_switch case_errKubernetes env 16000000000 tr =
     backoff_wait env 30000000000 (tr @ [logrus_Errorf
        ''Sync for %v failed due to Kubernetes error. Trying again in %v. Reason: %v'' 16000000000])
   \<and> loop_switch case_errKubernetes env 30000000000 tr =
     backoff_wait env 30000000000 (tr @ [logrus_Errorf
        ''Sync for %v failed due to Kubernetes error. Trying again in %v. Reason: %v'' 30000000000])"
  by (simp add: loop_switch_def backoffMax_def time_Second_def)

text \<open>
  Claim C1, at three cycles whose listing fails. The errors are returned through
  \<^verbatim>\<open>errKubernetes\<close>, the type switch takes the \<^verbatim>\<open>errOPA\<close> case each time, and the
  worker waits one second three times.
\<close>

theorem three_list_failures_wait:
  "loop 3 ns list_fails_env [] =
     Continue 1000000000
       [resource_List,
        logrus_Errorf ''Sync for %v failed due to OPA error. Trying again in %v. Reason: %v''
          1000000000,
        time_NewTimer 1000000000,
        resource_List,
        logrus_Errorf ''Sync for %v failed due to OPA error. Trying again in %v. Reason: %v''
          1000000000,
        time_NewTimer 1000000000,
        resource_List,
        logrus_Errorf ''Sync for %v failed due to OPA error. Trying again in %v. Reason: %v''
          1000000000,
        time_NewTimer 1000000000]
   \<and> waits (trace_of (loop 3 ns list_fails_env [])) = [1000000000, 1000000000, 1000000000]"
proof -
  have body: "loop_body ns list_fails_env delay tr =
      Continue backoffMin
        (tr @ [resource_List,
               logrus_Errorf ''Sync for %v failed due to OPA error. Trying again in %v. Reason: %v''
                 delay,
               time_NewTimer backoffMin])" for delay tr
    by (simp add: loop_body_def loop_switch_def sync_def sync_open_def list_fails_env_def scripted_def
        errors_Wrap_def errKubernetes_def type_switch_def is_errChannelClosed_def is_errOPA_def
        backoff_wait_def)
  have "loop_for (Suc (Suc (Suc 0))) ns list_fails_env backoffMin [] =
      Continue backoffMin
       [resource_List,
        logrus_Errorf ''Sync for %v failed due to OPA error. Trying again in %v. Reason: %v''
          backoffMin,
        time_NewTimer backoffMin,
        resource_List,
        logrus_Errorf ''Sync for %v failed due to OPA error. Trying again in %v. Reason: %v''
          backoffMin,
        time_NewTimer backoffMin,
        resource_List,
        logrus_Errorf ''Sync for %v failed due to OPA error. Trying again in %v. Reason: %v''
          backoffMin,
        time_NewTimer backoffMin]"
    by (simp add: body)
  then show ?thesis
    by (simp add: loop_def numeral_3_eq_3 backoffMin_def time_Second_def)
qed

text \<open>
  How the type switch classifies what \<^verbatim>\<open>sync\<close> returns: an event of an
  unrecognised type gives \<^verbatim>\<open>errChannelClosed\<close>, which takes its own case; every
  error returned through \<^verbatim>\<open>errOPA\<close> takes the \<^verbatim>\<open>errOPA\<close> case; and so does
  every error returned through \<^verbatim>\<open>errKubernetes\<close>.
\<close>

lemma unrecognised_event_closes:
  assumes "Type evt \<noteq> watch_Added" and "Type evt \<noteq> watch_Modified"
    and "Type evt \<noteq> watch_Deleted" and "Type evt \<noteq> watch_Error"
  shows "event_loop ns env (recv evt # ch) tr = (Some errChannelClosed, tr)"
  using assms by simp

lemma closed_channel_closes:
  "event_loop ns env (recv closed_channel_Event # ch) tr = (Some errChannelClosed, tr)"
  by (simp add: closed_channel_Event_def watch_Added_def watch_Modified_def watch_Deleted_def
      watch_Error_def)

lemma error_event_returns_errKubernetes:
  "Type evt = watch_Error \<Longrightarrow>
   event_loop ns env (recv evt # ch) tr =
     (Some (errKubernetes (fmt_Errorf ''error event: %v'' (Object evt))), tr)"
  by (simp add: watch_types_distinct [symmetric])

lemma classification_by_type_switch:
  "type_switch errChannelClosed = case_errChannelClosed"
  "cause \<noteq> nil \<Longrightarrow> type_switch (errOPA (errors_Wrap cause msg)) = case_errOPA"
  "cause \<noteq> nil \<Longrightarrow> type_switch (errKubernetes (errors_Wrap cause msg)) = case_errOPA"
  "type_switch (errKubernetes (fmt_Errorf format obj)) = case_errOPA"
  by (simp_all add: type_switch_def is_errChannelClosed_def is_errOPA_def errOPA_def
      errKubernetes_def errors_Wrap_def)

text \<open>
  Claim C3, at a cycle whose listing fails. \<^verbatim>\<open>sync\<close> returns the error through
  \<^verbatim>\<open>errKubernetes\<close>; the value is the wrapped error itself, the type switch of the
  loop takes the \<^verbatim>\<open>errOPA\<close> case for it, and the loop logs an OPA error.
\<close>

theorem list_failure_takes_errOPA_case:
  "sync ns list_fails_env tr =
     (Some (errKubernetes (errors_Wrap (foreign ''connection refused'') ''list'')),
      tr @ [resource_List])
   \<and> errKubernetes (errors_Wrap (foreign ''connection refused'') ''list'') =
       errOPA (errors_Wrap (foreign ''connection refused'') ''list'')
   \<and> type_switch (errKubernetes (errors_Wrap (foreign ''connection refused'') ''list'')) =
       case_errOPA
   \<and> loop_body ns list_fails_env delay tr =
       Continue backoffMin
        (tr @ [resource_List,
               logrus_Errorf ''Sync for %v failed due to OPA error. Trying again in %v. Reason: %v''
                 delay,
               time_NewTimer backoffMin])"
  by (simp add: loop_body_def loop_switch_def sync_def sync_open_def list_fails_env_def scripted_def
      errors_Wrap_def errKubernetes_def errOPA_def type_switch_def is_errChannelClosed_def
      is_errOPA_def backoff_wait_def)

end
